theory Spec2Isabelle
  imports Main
begin

section \<open>The Command Index\<close>

text \<open>
  The framework class keeps its registered commands in the static array
  \<^verbatim>\<open>Framework.commands\<close>, in registration order. A command is an object of the
  class \<^verbatim>\<open>Command\<close> (\<^verbatim>\<open>./bot/command\<close>), which is imported by the framework
  but is not among the available sources; the record below has the fields that the
  plugin contract of the specification gives a command: a primary name, an ordered
  sequence of aliases, a usage template and a minimum argument count.
\<close>

record command =
  name :: string
  aliases :: "string list"
  usage :: string
  minArgs :: nat

text \<open>
  Modelled from the spec: \<^verbatim>\<open>Command.hasAlias\<close>, the method that
  \<^verbatim>\<open>Framework.findCommand\<close> calls on every registered command; its source
  (\<^verbatim>\<open>./bot/command\<close>) is missing. The specification says the test is "whether
  the token equals the command's primary name or any of its aliases (exact string
  match ... the baseline is case-sensitive)".
\<close>

definition hasAlias :: "command \<Rightarrow> string \<Rightarrow> bool" where
  "hasAlias command token \<longleftrightarrow> token = name command \<or> token \<in> set (aliases command)"

text \<open>
  Modelled from the spec: \<^verbatim>\<open>Command.getUsage\<close> (source missing), the accessor
  of the command's usage template.
\<close>

definition getUsage :: "command \<Rightarrow> string" where
  "getUsage command = usage command"

text \<open>
  \<^verbatim>\<open>Framework.findCommand(name)\<close>: the loop
  \<^verbatim>\<open>for (let i = 0; i < this.commands.length; i++)\<close> that returns
  \<^verbatim>\<open>this.commands[i]\<close> at the first \<open>i\<close> whose command answers
  \<^verbatim>\<open>hasAlias(name)\<close>, and \<^verbatim>\<open>null\<close> (here \<open>None\<close>) when the loop runs out.
  \<open>findCommand_from\<close> is the loop entered at index \<open>i\<close>.
\<close>

function findCommand_from :: "command list \<Rightarrow> string \<Rightarrow> nat \<Rightarrow> command option" where
  "findCommand_from commands token i =
     (if i < length commands then
        (let command = commands ! i in
         if hasAlias command token then Some command
         else findCommand_from commands token (Suc i))
      else None)"
  by pat_completeness auto
termination
  by (relation "measure (\<lambda>(commands, token, i). length commands - i)") auto

definition findCommand :: "command list \<Rightarrow> string \<Rightarrow> command option" where
  "findCommand commands token = findCommand_from commands token 0"

text \<open>
  The same loop, returning the index \<open>i\<close> at which it returns instead of the command
  stored there. Two registered commands are two objects even when their fields agree;
  the index tells them apart where the returned record could not.
\<close>

function findCommand_index_from :: "command list \<Rightarrow> string \<Rightarrow> nat \<Rightarrow> nat option" where
  "findCommand_index_from commands token i =
     (if i < length commands then
        (if hasAlias (commands ! i) token then Some i
         else findCommand_index_from commands token (Suc i))
      else None)"
  by pat_completeness auto
termination
  by (relation "measure (\<lambda>(commands, token, i). length commands - i)") auto

definition findCommand_index :: "command list \<Rightarrow> string \<Rightarrow> nat option" where
  "findCommand_index commands token = findCommand_index_from commands token 0"

declare findCommand_from.simps [simp del]
declare findCommand_index_from.simps [simp del]

section \<open>The filesystem scanner\<close>

text \<open>
  The scanner sees the file system through \<^verbatim>\<open>fs.existsSync\<close>,
  \<^verbatim>\<open>fs.readdirSync\<close> and \<^verbatim>\<open>fs.statSync(...).isDirectory()\<close>. A directory
  tree is a finite tree whose directories list their entries in the order
  \<^verbatim>\<open>readdirSync\<close> returns them; a file system maps the absolute path of a scan root
  to the tree found there, and has no entry for a path that does not exist.
\<close>

datatype fsnode = File | Dir "(string \<times> fsnode) list"

type_synonym filesystem = "string \<rightharpoonup> fsnode"

datatype error =
    ENOENT string
  | ENOTDIR string
  | ModuleLoadError string
  | ConstructorError string

definition existsSync :: "filesystem \<Rightarrow> string \<Rightarrow> bool" where
  "existsSync fs path \<longleftrightarrow> fs path \<noteq> None"

fun isDirectory :: "fsnode \<Rightarrow> bool" where
  "isDirectory File = False"
| "isDirectory (Dir entries) = True"

text \<open>
  \<^verbatim>\<open>String.prototype.toLowerCase\<close>, on the letters that matter to the suffix test:
  the only characters that lower-case to \<open>j\<close> or \<open>s\<close> are \<open>J\<close> and \<open>S\<close>, and
  the full stop is its own lower case.
\<close>

definition toLowerChar :: "char \<Rightarrow> char" where
  "toLowerChar c =
     (let n = (of_char c :: nat) in if 65 \<le> n \<and> n \<le> 90 then char_of (n + 32) else c)"

definition toLowerCase :: "string \<Rightarrow> string" where
  "toLowerCase s = map toLowerChar s"

definition endsWith :: "string \<Rightarrow> string \<Rightarrow> bool" where
  "endsWith s suffix \<longleftrightarrow>
     length suffix \<le> length s \<and> drop (length s - length suffix) s = suffix"

definition startsWith :: "string \<Rightarrow> string \<Rightarrow> bool" where
  "startsWith s p \<longleftrightarrow> take (length p) s = p"

text \<open>
  \<^verbatim>\<open>Framework.getFilesSync(dir, filelist)\<close>. \<open>getFilesSync_node\<close> is the call on
  a directory whose tree is at hand (\<^verbatim>\<open>readdirSync\<close> throws on a plain file), and
  \<open>getFilesSync_forEach\<close> is its \<^verbatim>\<open>files.forEach\<close> loop, with \<open>found\<close> threaded
  through as the source's mutable array is. The recursive call receives the subtree that
  \<^verbatim>\<open>dir + '/' + file\<close> names. \<^verbatim>\<open>path.resolve\<close> belongs to the platform and is the
  parameter \<open>resolve\<close>.
\<close>

fun getFilesSync_node ::
    "(string \<Rightarrow> string) \<Rightarrow> fsnode \<Rightarrow> string \<Rightarrow> string list \<Rightarrow> error + string list"
  and getFilesSync_forEach ::
    "(string \<Rightarrow> string) \<Rightarrow> (string \<times> fsnode) list \<Rightarrow> string \<Rightarrow> string list \<Rightarrow> error + string list"
where
  "getFilesSync_node resolve File dir found = Inl (ENOTDIR dir)"
| "getFilesSync_node resolve (Dir files) dir found = getFilesSync_forEach resolve files dir found"
| "getFilesSync_forEach resolve [] dir found = Inr found"
| "getFilesSync_forEach resolve ((file, node) # files) dir found =
     (if isDirectory node then
        (case getFilesSync_node resolve node (dir @ ''/'' @ file) found of
           Inl e \<Rightarrow> Inl e
         | Inr found' \<Rightarrow> getFilesSync_forEach resolve files dir found')
      else if endsWith (toLowerCase file) ''.js'' then
        getFilesSync_forEach resolve files dir (found @ [resolve (dir @ ''/'' @ file)])
      else getFilesSync_forEach resolve files dir found)"

text \<open>
  The call \<^verbatim>\<open>getFilesSync(dir)\<close> on a path: \<^verbatim>\<open>fs.readdirSync(dir)\<close> throws
  \<^verbatim>\<open>ENOENT\<close> when nothing exists at \<open>dir\<close>; the file list starts empty.
\<close>

definition getFilesSync :: "(string \<Rightarrow> string) \<Rightarrow> filesystem \<Rightarrow> string \<Rightarrow> error + string list" where
  "getFilesSync resolve fs dir =
     (case fs dir of
        None \<Rightarrow> Inl (ENOENT dir)
      | Some node \<Rightarrow> getFilesSync_node resolve node dir [])"

text \<open>
  What the scan is expected to return: every entry of the tree that is not a directory,
  with the directory path it was found under, in traversal order.
\<close>

fun allFiles :: "fsnode \<Rightarrow> string \<Rightarrow> (string \<times> string) list"
  and allFiles_entries :: "(string \<times> fsnode) list \<Rightarrow> string \<Rightarrow> (string \<times> string) list"
where
  "allFiles File dir = []"
| "allFiles (Dir files) dir = allFiles_entries files dir"
| "allFiles_entries [] dir = []"
| "allFiles_entries ((file, node) # files) dir =
     (if isDirectory node then allFiles node (dir @ ''/'' @ file) @ allFiles_entries files dir
      else (dir, file) # allFiles_entries files dir)"

definition loadablePaths :: "(string \<Rightarrow> string) \<Rightarrow> (string \<times> string) list \<Rightarrow> string list" where
  "loadablePaths resolve entries =
     map (\<lambda>(dir, file). resolve (dir @ ''/'' @ file))
       (filter (\<lambda>(dir, file). endsWith (toLowerCase file) ''.js'') entries)"

section \<open>The plugin registry\<close>

text \<open>
  \<^verbatim>\<open>require(filePath)\<close> yields the module's exports, which the loaders walk with
  \<^verbatim>\<open>for (let className in classes)\<close>: a list of named values in enumeration order.
  Of an exported value the loaders ask \<^verbatim>\<open>typeof v === 'function'\<close>; of a function,
  what \<^verbatim>\<open>new v()\<close> does (it throws, or yields an object); of the object, whether
  it is \<^verbatim>\<open>instanceof\<close> \<^verbatim>\<open>Command\<close>, \<^verbatim>\<open>Listener\<close> or \<^verbatim>\<open>Job\<close>.
\<close>

datatype js_object =
    CommandInstance command
  | ListenerInstance string
  | JobInstance string
  | OtherInstance

datatype jsvalue =
    NotAFunction
  | Function "error + js_object"

type_synonym exports = "(string \<times> jsvalue) list"

text \<open>
  What the loaders reach outside the framework class: the file system, \<^verbatim>\<open>path.resolve\<close>,
  \<^verbatim>\<open>require\<close> (which throws on a module that fails to load), and the four default
  directories \<^verbatim>\<open>path.join(__dirname, '../bot/commands')\<close> and so on, which
  \<^verbatim>\<open>path.join\<close> never makes the empty string.
\<close>

record host =
  host_files :: filesystem
  path_resolve :: "string \<Rightarrow> string"
  require :: "string \<Rightarrow> error + exports"
  commandsDir :: string
  listenersDir :: string
  scriptsDir :: string
  jobsDir :: string

text \<open>
  What a load pass can change or do: the static array \<^verbatim>\<open>Framework.commands\<close>, and,
  in order, the lines it writes to the logger at level verbose, the modules it loads and
  the \<^verbatim>\<open>start()\<close> calls it makes on listeners and jobs.
\<close>

datatype load_event =
    Verbose "string list"
  | Required string
  | Started js_object

record registry =
  fw_commands :: "command list"
  fw_events :: "load_event list"

definition emit :: "load_event \<Rightarrow> registry \<Rightarrow> registry" where
  "emit e r = r\<lparr>fw_events := fw_events r @ [e]\<rparr>"

text \<open>
  A pass returns the registry it leaves behind together with the exception that ended
  it, if one did: nothing in the loaders catches, so the first throw ends the pass, and
  what was pushed or started before it stays.
\<close>

type_synonym pass_result = "error option \<times> registry"

text \<open>The \<^verbatim>\<open>for ... in classes\<close> loop of \<^verbatim>\<open>loadCommands\<close>.\<close>

fun loadCommands_classes :: "exports \<Rightarrow> registry \<Rightarrow> pass_result" where
  "loadCommands_classes [] r = (None, r)"
| "loadCommands_classes ((className, v) # classes) r =
     (case v of
        NotAFunction \<Rightarrow> loadCommands_classes classes r
      | Function new \<Rightarrow>
          (case new of
             Inl e \<Rightarrow> (Some e, r)
           | Inr inst \<Rightarrow>
               (case inst of
                  CommandInstance c \<Rightarrow>
                    loadCommands_classes classes (r\<lparr>fw_commands := fw_commands r @ [c]\<rparr>)
                | _ \<Rightarrow> loadCommands_classes classes r)))"

text \<open>The \<^verbatim>\<open>files.forEach\<close> loop of \<^verbatim>\<open>loadCommands\<close>.\<close>

fun loadCommands_forEach :: "host \<Rightarrow> string list \<Rightarrow> registry \<Rightarrow> pass_result" where
  "loadCommands_forEach h [] r = (None, r)"
| "loadCommands_forEach h (filePath # files) r =
     (let r1 = emit (Verbose [''Hit:'', filePath]) r in
      case require h filePath of
        Inl e \<Rightarrow> (Some e, r1)
      | Inr classes \<Rightarrow>
          (case loadCommands_classes classes (emit (Required filePath) r1) of
             (Some e, r2) \<Rightarrow> (Some e, r2)
           | (None, r2) \<Rightarrow> loadCommands_forEach h files r2))"

text \<open>The body of \<^verbatim>\<open>if (inDirectory) { ... }\<close> in \<^verbatim>\<open>loadCommands\<close>.\<close>

definition loadCommands_in :: "host \<Rightarrow> string \<Rightarrow> registry \<Rightarrow> pass_result" where
  "loadCommands_in h inDirectory r =
     (let r1 = emit (Verbose [''Scanning for commands:'', inDirectory]) r in
      if \<not> existsSync (host_files h) inDirectory then (None, r1)
      else
        (case getFilesSync (path_resolve h) (host_files h) inDirectory of
           Inl e \<Rightarrow> (Some e, r1)
         | Inr found \<Rightarrow> loadCommands_forEach h found r1))"

text \<open>
  \<^verbatim>\<open>Framework.loadCommands(inDirectory?)\<close>: without a directory (or with the empty
  string, which is falsy) it calls itself with the default directory.
\<close>

definition loadCommands :: "host \<Rightarrow> string option \<Rightarrow> registry \<Rightarrow> pass_result" where
  "loadCommands h inDirectory r =
     (case inDirectory of
        None \<Rightarrow> loadCommands_in h (commandsDir h) r
      | Some d \<Rightarrow> if d \<noteq> [] then loadCommands_in h d r else loadCommands_in h (commandsDir h) r)"

text \<open>
  \<^verbatim>\<open>Framework.loadListeners\<close>: the same walk; an instance of \<^verbatim>\<open>Listener\<close> is
  started and not kept.
\<close>

fun loadListeners_classes :: "exports \<Rightarrow> registry \<Rightarrow> pass_result" where
  "loadListeners_classes [] r = (None, r)"
| "loadListeners_classes ((className, v) # classes) r =
     (case v of
        NotAFunction \<Rightarrow> loadListeners_classes classes r
      | Function new \<Rightarrow>
          (case new of
             Inl e \<Rightarrow> (Some e, r)
           | Inr inst \<Rightarrow>
               (case inst of
                  ListenerInstance l \<Rightarrow>
                    loadListeners_classes classes (emit (Started (ListenerInstance l)) r)
                | _ \<Rightarrow> loadListeners_classes classes r)))"

fun loadListeners_forEach :: "host \<Rightarrow> string list \<Rightarrow> registry \<Rightarrow> pass_result" where
  "loadListeners_forEach h [] r = (None, r)"
| "loadListeners_forEach h (filePath # files) r =
     (let r1 = emit (Verbose [''Hit:'', filePath]) r in
      case require h filePath of
        Inl e \<Rightarrow> (Some e, r1)
      | Inr classes \<Rightarrow>
          (case loadListeners_classes classes (emit (Required filePath) r1) of
             (Some e, r2) \<Rightarrow> (Some e, r2)
           | (None, r2) \<Rightarrow> loadListeners_forEach h files r2))"

definition loadListeners_in :: "host \<Rightarrow> string \<Rightarrow> registry \<Rightarrow> pass_result" where
  "loadListeners_in h inDirectory r =
     (let r1 = emit (Verbose [''Scanning for listeners:'', inDirectory]) r in
      if \<not> existsSync (host_files h) inDirectory then (None, r1)
      else
        (case getFilesSync (path_resolve h) (host_files h) inDirectory of
           Inl e \<Rightarrow> (Some e, r1)
         | Inr found \<Rightarrow> loadListeners_forEach h found r1))"

definition loadListeners :: "host \<Rightarrow> string option \<Rightarrow> registry \<Rightarrow> pass_result" where
  "loadListeners h inDirectory r =
     (case inDirectory of
        None \<Rightarrow> loadListeners_in h (listenersDir h) r
      | Some d \<Rightarrow> if d \<noteq> [] then loadListeners_in h d r else loadListeners_in h (listenersDir h) r)"

text \<open>\<^verbatim>\<open>Framework.loadScripts\<close>: each file is loaded and nothing is instantiated.\<close>

fun loadScripts_forEach :: "host \<Rightarrow> string list \<Rightarrow> registry \<Rightarrow> pass_result" where
  "loadScripts_forEach h [] r = (None, r)"
| "loadScripts_forEach h (filePath # files) r =
     (let r1 = emit (Verbose [''Hit:'', filePath]) r in
      case require h filePath of
        Inl e \<Rightarrow> (Some e, r1)
      | Inr classes \<Rightarrow> loadScripts_forEach h files (emit (Required filePath) r1))"

definition loadScripts_in :: "host \<Rightarrow> string \<Rightarrow> registry \<Rightarrow> pass_result" where
  "loadScripts_in h inDirectory r =
     (let r1 = emit (Verbose [''Scanning for scripts:'', inDirectory]) r in
      if \<not> existsSync (host_files h) inDirectory then (None, r1)
      else
        (case getFilesSync (path_resolve h) (host_files h) inDirectory of
           Inl e \<Rightarrow> (Some e, r1)
         | Inr found \<Rightarrow> loadScripts_forEach h found r1))"

definition loadScripts :: "host \<Rightarrow> string option \<Rightarrow> registry \<Rightarrow> pass_result" where
  "loadScripts h inDirectory r =
     (case inDirectory of
        None \<Rightarrow> loadScripts_in h (scriptsDir h) r
      | Some d \<Rightarrow> if d \<noteq> [] then loadScripts_in h d r else loadScripts_in h (scriptsDir h) r)"

text \<open>\<^verbatim>\<open>Framework.loadJobs\<close>: as for listeners, with \<^verbatim>\<open>instanceof Job\<close>.\<close>

fun loadJobs_classes :: "exports \<Rightarrow> registry \<Rightarrow> pass_result" where
  "loadJobs_classes [] r = (None, r)"
| "loadJobs_classes ((className, v) # classes) r =
     (case v of
        NotAFunction \<Rightarrow> loadJobs_classes classes r
      | Function new \<Rightarrow>
          (case new of
             Inl e \<Rightarrow> (Some e, r)
           | Inr inst \<Rightarrow>
               (case inst of
                  JobInstance j \<Rightarrow> loadJobs_classes classes (emit (Started (JobInstance j)) r)
                | _ \<Rightarrow> loadJobs_classes classes r)))"

fun loadJobs_forEach :: "host \<Rightarrow> string list \<Rightarrow> registry \<Rightarrow> pass_result" where
  "loadJobs_forEach h [] r = (None, r)"
| "loadJobs_forEach h (filePath # files) r =
     (let r1 = emit (Verbose [''Hit:'', filePath]) r in
      case require h filePath of
        Inl e \<Rightarrow> (Some e, r1)
      | Inr classes \<Rightarrow>
          (case loadJobs_classes classes (emit (Required filePath) r1) of
             (Some e, r2) \<Rightarrow> (Some e, r2)
           | (None, r2) \<Rightarrow> loadJobs_forEach h files r2))"

definition loadJobs_in :: "host \<Rightarrow> string \<Rightarrow> registry \<Rightarrow> pass_result" where
  "loadJobs_in h inDirectory r =
     (let r1 = emit (Verbose [''Scanning for jobs:'', inDirectory]) r in
      if \<not> existsSync (host_files h) inDirectory then (None, r1)
      else
        (case getFilesSync (path_resolve h) (host_files h) inDirectory of
           Inl e \<Rightarrow> (Some e, r1)
         | Inr found \<Rightarrow> loadJobs_forEach h found r1))"

definition loadJobs :: "host \<Rightarrow> string option \<Rightarrow> registry \<Rightarrow> pass_result" where
  "loadJobs h inDirectory r =
     (case inDirectory of
        None \<Rightarrow> loadJobs_in h (jobsDir h) r
      | Some d \<Rightarrow> if d \<noteq> [] then loadJobs_in h d r else loadJobs_in h (jobsDir h) r)"

text \<open>
  The commands a load pass is expected to register from one module: those exports that
  are functions whose instantiation yields a \<^verbatim>\<open>Command\<close>, in enumeration order.
\<close>

fun acceptedCommand :: "jsvalue \<Rightarrow> command list" where
  "acceptedCommand (Function (Inr (CommandInstance c))) = [c]"
| "acceptedCommand v = []"

definition acceptedCommands :: "exports \<Rightarrow> command list" where
  "acceptedCommands classes = concat (map (\<lambda>(className, v). acceptedCommand v) classes)"

definition moduleExports :: "host \<Rightarrow> string \<Rightarrow> exports" where
  "moduleExports h filePath = (case require h filePath of Inl e \<Rightarrow> [] | Inr classes \<Rightarrow> classes)"

text \<open>
  The directory a pass scans, and the files it discovers there: none when the directory
  does not exist.
\<close>

definition scanRoot :: "string \<Rightarrow> string option \<Rightarrow> string" where
  "scanRoot dflt inDirectory =
     (case inDirectory of None \<Rightarrow> dflt | Some d \<Rightarrow> if d \<noteq> [] then d else dflt)"

definition discovered :: "host \<Rightarrow> string \<Rightarrow> string list" where
  "discovered h dir =
     (if existsSync (host_files h) dir then
        (case getFilesSync (path_resolve h) (host_files h) dir of
           Inl e \<Rightarrow> []
         | Inr found \<Rightarrow> found)
      else [])"

definition expectedCommands :: "host \<Rightarrow> string list \<Rightarrow> command list" where
  "expectedCommands h found = concat (map (\<lambda>filePath. acceptedCommands (moduleExports h filePath)) found)"

text \<open>
  The first exception of a command load pass, if there is one: over the exports of one
  module, the exception of the first function-typed export whose instantiation throws;
  over the discovered files, the failure of the first module that does not load or the
  first such exception; over the pass, the exception of the scan itself when the
  directory exists and cannot be enumerated.
\<close>

fun classesFailure :: "exports \<Rightarrow> error option" where
  "classesFailure [] = None"
| "classesFailure ((className, v) # classes) =
     (case v of
        Function (Inl e) \<Rightarrow> Some e
      | _ \<Rightarrow> classesFailure classes)"

fun firstFailure :: "host \<Rightarrow> string list \<Rightarrow> error option" where
  "firstFailure h [] = None"
| "firstFailure h (filePath # found) =
     (case require h filePath of
        Inl e \<Rightarrow> Some e
      | Inr classes \<Rightarrow>
          (case classesFailure classes of
             Some e \<Rightarrow> Some e
           | None \<Rightarrow> firstFailure h found))"

definition scanFailure :: "host \<Rightarrow> string \<Rightarrow> error option" where
  "scanFailure h dir =
     (if existsSync (host_files h) dir then
        (case getFilesSync (path_resolve h) (host_files h) dir of
           Inl e \<Rightarrow> Some e
         | Inr found \<Rightarrow> None)
      else None)"

definition passFailure :: "host \<Rightarrow> string \<Rightarrow> error option" where
  "passFailure h dir =
     (case scanFailure h dir of
        Some e \<Rightarrow> Some e
      | None \<Rightarrow> firstFailure h (discovered h dir))"

text \<open>
  The accepted commands among the exports that come before the first exception: of one
  module, and of the discovered files.
\<close>

fun acceptedUntilFailure :: "exports \<Rightarrow> command list" where
  "acceptedUntilFailure [] = []"
| "acceptedUntilFailure ((className, v) # classes) =
     (case v of
        Function (Inl e) \<Rightarrow> []
      | _ \<Rightarrow> acceptedCommand v @ acceptedUntilFailure classes)"

fun registeredUntilFailure :: "host \<Rightarrow> string list \<Rightarrow> command list" where
  "registeredUntilFailure h [] = []"
| "registeredUntilFailure h (filePath # found) =
     (case require h filePath of
        Inl e \<Rightarrow> []
      | Inr classes \<Rightarrow>
          (case classesFailure classes of
             Some e \<Rightarrow> acceptedUntilFailure classes
           | None \<Rightarrow> acceptedCommands classes @ registeredUntilFailure h found))"

section \<open>The dispatch pipeline\<close>

text \<open>
  A message event carries its text, the guild and the member objects it belongs to
  (named here by their platform identifiers: the event source hands the handler the same
  object for the same guild), whether the member's user is a bot, and its channel.
  \<^verbatim>\<open>message.guild\<close> and \<^verbatim>\<open>message.member\<close> are typed as always present and the
  handler dereferences both without a test.
\<close>

type_synonym snowflake = string

record message =
  msg_content :: string
  msg_guild :: snowflake
  msg_member :: snowflake
  msg_bot :: bool
  msg_channel :: snowflake

text \<open>
  Modelled from the spec: the classes \<^verbatim>\<open>GuildBucket\<close> and \<^verbatim>\<open>MemberBucket\<close>
  (\<^verbatim>\<open>./lib/database/buckets\<close>, sources missing). A bucket is "keyed by the owning
  entity's platform identifier ... loaded asynchronously from an external store"; the
  handler reads the field \<^verbatim>\<open>prefix\<close> of a guild's bucket. A new bucket has not been
  loaded and holds the prefix the constructor gives it; when its load completes it holds
  the prefix the store has for the guild.
\<close>

record guildBucket =
  gb_id :: snowflake
  gb_loaded :: bool
  gb_prefix :: string

record memberBucket =
  mb_id :: snowflake
  mb_loaded :: bool

text \<open>
  The collaborators of the handler: the commands registered at startup, the tokenizer
  of the class \<^verbatim>\<open>Input\<close> (which the specification does not fix), the prefix of a
  bucket that has not been loaded, and the contents of the settings store.
\<close>

record env =
  env_commands :: "command list"
  env_tokenize :: "string \<Rightarrow> string list"
  env_initialPrefix :: string
  env_storedPrefix :: "snowflake \<Rightarrow> string"

definition newGuildBucket :: "env \<Rightarrow> snowflake \<Rightarrow> guildBucket" where
  "newGuildBucket e g = \<lparr>gb_id = g, gb_loaded = False, gb_prefix = env_initialPrefix e\<rparr>"

definition loadedGuildBucket :: "env \<Rightarrow> guildBucket \<Rightarrow> guildBucket" where
  "loadedGuildBucket e b = b\<lparr>gb_loaded := True, gb_prefix := env_storedPrefix e (gb_id b)\<rparr>"

definition newMemberBucket :: "snowflake \<Rightarrow> memberBucket" where
  "newMemberBucket m = \<lparr>mb_id = m, mb_loaded = False\<rparr>"

definition loadedMemberBucket :: "memberBucket \<Rightarrow> memberBucket" where
  "loadedMemberBucket b = b\<lparr>mb_loaded := True\<rparr>"

text \<open>
  Modelled from the spec: the class \<^verbatim>\<open>Input\<close> (\<^verbatim>\<open>./bot/input\<close>, source
  missing). The specification: "tokenize the message text (minus prefix) into a command
  name and argument tokens"; "query the Command Index by the parsed command name/alias";
  a "proper" input has "argument count \<ge> command's declared minimum".
\<close>

record input =
  in_message :: message
  in_name :: string
  in_args :: "string list"
  in_command :: "command option"

definition newInput :: "env \<Rightarrow> string \<Rightarrow> message \<Rightarrow> input" where
  "newInput e pfx m =
     (let tokens = env_tokenize e (drop (length pfx) (msg_content m));
          nm = (case tokens of [] \<Rightarrow> [] | t # ts \<Rightarrow> t)
      in \<lparr>in_message = m, in_name = nm, in_args = tl tokens,
          in_command = findCommand (env_commands e) nm\<rparr>)"

definition getCommand :: "input \<Rightarrow> command option" where
  "getCommand i = in_command i"

definition isProper :: "input \<Rightarrow> bool" where
  "isProper i = (case in_command i of None \<Rightarrow> False | Some c \<Rightarrow> minArgs c \<le> length (in_args i))"

text \<open>
  What handling messages does, in order: a load issued on a guild's or a member's bucket,
  a query of the Command Index, a call of a command's \<^verbatim>\<open>execute\<close>, a message sent
  to a channel, and the \<^verbatim>\<open>TypeError\<close> of reading a field of a missing bucket.
\<close>

datatype effect =
    GuildLoad snowflake
  | MemberLoad snowflake
  | Lookup string
  | Execute command input
  | Send snowflake string
  | Raised message

text \<open>
  The handler is an \<^verbatim>\<open>async\<close> function with two \<^verbatim>\<open>await\<close>s. It runs without
  interruption from one suspension point to the next; between them other handlers run.
  A suspended handler is its message and the \<^verbatim>\<open>await\<close> it stands at. The state is
  the \<^verbatim>\<open>settings\<close> field of every guild and member object, the suspended handlers,
  and the effects so far.
\<close>

datatype await = AwaitGuildLoad | AwaitMemberLoad

record state =
  guildSettings :: "snowflake \<rightharpoonup> guildBucket"
  memberSettings :: "snowflake \<rightharpoonup> memberBucket"
  suspended :: "(message \<times> await) list"
  trace :: "effect list"

definition initial :: state where
  "initial = \<lparr>guildSettings = Map.empty, memberSettings = Map.empty, suspended = [], trace = []\<rparr>"

definition perform :: "effect list \<Rightarrow> state \<Rightarrow> state" where
  "perform es s = s\<lparr>trace := trace s @ es\<rparr>"

text \<open>
  From \<^verbatim>\<open>let input = new Input(message)\<close> to the end of the handler: the segment that
  runs once the member's settings are there. The query of the Command Index is made by
  the input; it is recorded here, where the handler builds the input and asks it for the
  command. What \<^verbatim>\<open>execute\<close> does is the command's own business and is recorded as
  the call alone.
\<close>

definition runCommand :: "env \<Rightarrow> message \<Rightarrow> state \<Rightarrow> state" where
  "runCommand e m s =
     (case guildSettings s (msg_guild m) of
        None \<Rightarrow> perform [Raised m] s
      | Some b \<Rightarrow>
          (let i = newInput e (gb_prefix b) m;
               s1 = perform [Lookup (in_name i)] s
           in case getCommand i of
                None \<Rightarrow> s1
              | Some c \<Rightarrow>
                  if isProper i then perform [Execute c i] s1
                  else perform [Send (msg_channel m) (''Usage:  `'' @ getUsage c @ ''`'')] s1))"

text \<open>
  From the prefix test to the second \<^verbatim>\<open>await\<close>: the segment that runs once the
  guild's settings are there. A member without a bucket gets a new one attached, its load
  is issued, and the handler suspends.
\<close>

definition afterGuildSettings :: "env \<Rightarrow> message \<Rightarrow> state \<Rightarrow> state" where
  "afterGuildSettings e m s =
     (case guildSettings s (msg_guild m) of
        None \<Rightarrow> perform [Raised m] s
      | Some b \<Rightarrow>
          if \<not> startsWith (msg_content m) (gb_prefix b) then s
          else if msg_bot m then s
          else if memberSettings s (msg_member m) = None then
            perform [MemberLoad (msg_member m)]
              (s\<lparr>memberSettings := (memberSettings s)(msg_member m \<mapsto> newMemberBucket (msg_member m)),
                 suspended := suspended s @ [(m, AwaitMemberLoad)]\<rparr>)
          else runCommand e m s)"

text \<open>
  The start of the handler, up to the first \<^verbatim>\<open>await\<close>: a guild without a bucket gets
  a new one attached, its load is issued, and the handler suspends.
\<close>

definition onMessage :: "env \<Rightarrow> message \<Rightarrow> state \<Rightarrow> state" where
  "onMessage e m s =
     (if guildSettings s (msg_guild m) = None then
        perform [GuildLoad (msg_guild m)]
          (s\<lparr>guildSettings := (guildSettings s)(msg_guild m \<mapsto> newGuildBucket e (msg_guild m)),
             suspended := suspended s @ [(m, AwaitGuildLoad)]\<rparr>)
      else afterGuildSettings e m s)"

text \<open>
  The continuation of a suspended handler when the load it awaits completes: the bucket
  now holds what the store has, and the handler goes on from its \<^verbatim>\<open>await\<close>.
\<close>

fun resume :: "env \<Rightarrow> message \<times> await \<Rightarrow> state \<Rightarrow> state" where
  "resume e (m, AwaitGuildLoad) s =
     afterGuildSettings e m
       (s\<lparr>guildSettings := (guildSettings s)
            (msg_guild m := map_option (loadedGuildBucket e) (guildSettings s (msg_guild m)))\<rparr>)"
| "resume e (m, AwaitMemberLoad) s =
     runCommand e m
       (s\<lparr>memberSettings := (memberSettings s)
            (msg_member m := map_option loadedMemberBucket (memberSettings s (msg_member m)))\<rparr>)"

definition dropTask :: "nat \<Rightarrow> state \<Rightarrow> state" where
  "dropTask i s = s\<lparr>suspended := take i (suspended s) @ drop (Suc i) (suspended s)\<rparr>"

text \<open>
  What can happen next: a message event arrives and its handler runs to its first
  suspension point or to its end; the load awaited by the \<open>i\<close>-th suspended handler
  completes and that handler runs on; or that load fails, the \<^verbatim>\<open>await\<close> throws and
  the handler ends there (nothing catches). A schedule is any sequence of these.
\<close>

datatype action = Arrives message | LoadCompletes nat | LoadFails nat

fun step :: "env \<Rightarrow> action \<Rightarrow> state \<Rightarrow> state" where
  "step e (Arrives m) s = onMessage e m s"
| "step e (LoadCompletes i) s =
     (if i < length (suspended s) then resume e (suspended s ! i) (dropTask i s) else s)"
| "step e (LoadFails i) s =
     (if i < length (suspended s) then dropTask i s else s)"

fun run :: "env \<Rightarrow> action list \<Rightarrow> state \<Rightarrow> state" where
  "run e [] s = s"
| "run e (a # as) s = run e as (step e a s)"

text \<open>
  One message handled from its arrival to the end of its handler with nothing in
  between: each load the handler itself issues completes before anything else happens.
  \<open>n\<close> is the number of handlers that were suspended before the message arrived.
\<close>

definition settleOwn :: "env \<Rightarrow> nat \<Rightarrow> state \<Rightarrow> state" where
  "settleOwn e n s =
     (if n < length (suspended s) then step e (LoadCompletes (length (suspended s) - 1)) s else s)"

definition dispatch :: "env \<Rightarrow> message \<Rightarrow> state \<Rightarrow> state" where
  "dispatch e m s =
     (let n = length (suspended s) in settleOwn e n (settleOwn e n (step e (Arrives m) s)))"

text \<open>
  The prefix the handler of a message from guild \<open>g\<close> tests the text against when it
  is dispatched in state \<open>s\<close>: that of the bucket attached to the guild, and for a guild
  without a bucket that of the bucket once loaded.
\<close>

definition guildPrefix :: "env \<Rightarrow> state \<Rightarrow> snowflake \<Rightarrow> string" where
  "guildPrefix e s g =
     (case guildSettings s g of None \<Rightarrow> env_storedPrefix e g | Some b \<Rightarrow> gb_prefix b)"

text \<open>
  A guild is settled in a state when no handler can find its bucket attached and not
  loaded: it has no bucket yet, or its bucket has been loaded.
\<close>

definition guildSettled :: "state \<Rightarrow> snowflake \<Rightarrow> bool" where
  "guildSettled s g = (case guildSettings s g of None \<Rightarrow> True | Some b \<Rightarrow> gb_loaded b)"

definition guildLoads :: "snowflake \<Rightarrow> effect list \<Rightarrow> nat" where
  "guildLoads g es = length (filter (\<lambda>x. x = GuildLoad g) es)"

fun isLookup :: "effect \<Rightarrow> bool" where
  "isLookup (Lookup t) = True"
| "isLookup x = False"

fun isSend :: "effect \<Rightarrow> bool" where
  "isSend (Send c t) = True"
| "isSend x = False"

fun isExecute :: "effect \<Rightarrow> bool" where
  "isExecute (Execute c i) = True"
| "isExecute x = False"

text \<open>
  The effects of the last segment of the handler, from the construction of the input on,
  for a message of a guild whose bucket holds the prefix \<open>pfx\<close>.
\<close>

definition commandEffects :: "env \<Rightarrow> string \<Rightarrow> message \<Rightarrow> effect list" where
  "commandEffects e pfx m =
     (let i = newInput e pfx m in
      Lookup (in_name i) #
      (case getCommand i of
         None \<Rightarrow> []
       | Some c \<Rightarrow>
           if isProper i then [Execute c i]
           else [Send (msg_channel m) (''Usage:  `'' @ getUsage c @ ''`'')]))"

text \<open>
  The effects of handling one message on its own: what \<open>dispatch\<close> adds to the effects
  that were there before.
\<close>

definition effectsOf :: "env \<Rightarrow> message \<Rightarrow> state \<Rightarrow> effect list" where
  "effectsOf e m s = drop (length (trace s)) (trace (dispatch e m s))"

section \<open>Example inputs\<close>

definition cmd_help :: command where
  "cmd_help = \<lparr>name = ''help'', aliases = [''h'', ''?''], usage = ''help [command]'', minArgs = 0\<rparr>"

definition cmd_halt :: command where
  "cmd_halt = \<lparr>name = ''halt'', aliases = [''h''], usage = ''halt'', minArgs = 0\<rparr>"

definition cmd_ban :: command where
  "cmd_ban = \<lparr>name = ''ban'', aliases = [], usage = ''ban <user> <reason>'', minArgs = 2\<rparr>"

text \<open>A tokenizer for the examples: the maximal runs of characters other than the space.\<close>

fun tokensFrom :: "string \<Rightarrow> string \<Rightarrow> string list" where
  "tokensFrom cur [] = (if cur = [] then [] else [cur])"
| "tokensFrom cur (c # cs) =
     (if c = CHR '' '' then (if cur = [] then tokensFrom [] cs else cur # tokensFrom [] cs)
      else tokensFrom (cur @ [c]) cs)"

definition splitWords :: "string \<Rightarrow> string list" where
  "splitWords s = tokensFrom [] s"

definition ex_env :: env where
  "ex_env = \<lparr>env_commands = [cmd_help, cmd_ban], env_tokenize = splitWords,
     env_initialPrefix = ''!'', env_storedPrefix = (\<lambda>g. if g = ''g2'' then ''?'' else ''!'')\<rparr>"

definition ex_msg :: "string \<Rightarrow> string \<Rightarrow> message" where
  "ex_msg g text =
     \<lparr>msg_content = text, msg_guild = g, msg_member = ''m1'', msg_bot = False, msg_channel = ''c1''\<rparr>"

definition ex_tree :: fsnode where
  "ex_tree = Dir [(''Ping.JS'', File), (''admin'', Dir [(''ban.js'', File), (''notes.txt'', File)]),
                  (''x.js'', Dir []), (''README.md'', File), (''Help.Js'', File)]"

definition ex_host :: host where
  "ex_host = \<lparr>host_files = [''/bot/commands'' \<mapsto> ex_tree], path_resolve = (\<lambda>p. p),
     require = (\<lambda>p. if p = ''/bot/commands/Ping.JS''
                     then Inr [(''helper'', NotAFunction), (''Help'', Function (Inr (CommandInstance cmd_help))),
                               (''Tick'', Function (Inr (JobInstance ''tick'')))]
                     else if p = ''/bot/commands/admin/ban.js''
                     then Inr [(''Ban'', Function (Inr (CommandInstance cmd_ban)))]
                     else Inr []),
     commandsDir = ''/bot/commands'', listenersDir = ''/bot/listeners'',
     scriptsDir = ''/bot/scripts'', jobsDir = ''/bot/jobs''\<rparr>"

definition ex_throwing_host :: host where
  "ex_throwing_host = ex_host\<lparr>require :=
     (\<lambda>p. if p = ''/bot/commands/Ping.JS''
          then Inr [(''Help'', Function (Inr (CommandInstance cmd_help))),
                    (''Broken'', Function (Inl (ConstructorError ''Broken''))),
                    (''Ban'', Function (Inr (CommandInstance cmd_ban)))]
          else Inr [(''Halt'', Function (Inr (CommandInstance cmd_halt)))])\<rparr>"

definition ex_registry :: registry where
  "ex_registry = \<lparr>fw_commands = [], fw_events = []\<rparr>"

section \<open>Properties of the Command Index\<close>

subsection \<open>The linear scan\<close>

lemma findCommand_from_index:
  "findCommand_from commands token i =
     map_option (\<lambda>k. commands ! k) (findCommand_index_from commands token i)"
proof (induction commands token i rule: findCommand_index_from.induct)
  case (1 commands token i)
  show ?case
  proof (cases "i < length commands \<and> \<not> hasAlias (commands ! i) token")
    case True
    with "1.IH" show ?thesis
      by (subst findCommand_from.simps, subst findCommand_index_from.simps) simp
  next
    case False
    then show ?thesis
      by (subst findCommand_from.simps, subst findCommand_index_from.simps) auto
  qed
qed

lemma findCommand_index_from_first:
  assumes "i \<le> k" "k < length commands" "hasAlias (commands ! k) token"
    and "\<forall>m. i \<le> m \<and> m < k \<longrightarrow> \<not> hasAlias (commands ! m) token"
  shows "findCommand_index_from commands token i = Some k"
  using assms
proof (induction commands token i rule: findCommand_index_from.induct)
  case (1 commands token i)
  show ?case
  proof (cases "i = k")
    case True
    with "1.prems" show ?thesis
      by (subst findCommand_index_from.simps) simp
  next
    case False
    with "1.prems" have lt: "i < k" by simp
    with "1.prems" have no: "\<not> hasAlias (commands ! i) token" by simp
    from lt "1.prems" have il: "i < length commands" by simp
    have "findCommand_index_from commands token (Suc i) = Some k"
      using "1.IH" [OF il no] lt "1.prems" by simp
    with il no show ?thesis
      by (subst findCommand_index_from.simps) simp
  qed
qed

lemma findCommand_index_from_none:
  assumes "\<forall>m. i \<le> m \<and> m < length commands \<longrightarrow> \<not> hasAlias (commands ! m) token"
  shows "findCommand_index_from commands token i = None"
  using assms
proof (induction commands token i rule: findCommand_index_from.induct)
  case (1 commands token i)
  show ?case
  proof (cases "i < length commands")
    case True
    with "1.prems" have no: "\<not> hasAlias (commands ! i) token" by simp
    have "findCommand_index_from commands token (Suc i) = None"
      using "1.IH" [OF True no] "1.prems" by simp
    with True no show ?thesis
      by (subst findCommand_index_from.simps) simp
  next
    case False
    then show ?thesis
      by (subst findCommand_index_from.simps) simp
  qed
qed

lemma findCommand_index_from_least:
  "findCommand_index_from commands token i = Some k \<Longrightarrow> i \<le> m \<Longrightarrow> m < k \<Longrightarrow>
     \<not> hasAlias (commands ! m) token"
proof (induction commands token i rule: findCommand_index_from.induct)
  case (1 commands token i)
  from "1.prems"(1) have il: "i < length commands"
    by (subst (asm) findCommand_index_from.simps) (simp split: if_splits)
  show ?case
  proof (cases "hasAlias (commands ! i) token")
    case True
    with il "1.prems"(1) have "k = i"
      by (subst (asm) findCommand_index_from.simps) simp
    with "1.prems" show ?thesis by simp
  next
    case False
    with il "1.prems"(1) have rec: "findCommand_index_from commands token (Suc i) = Some k"
      by (subst (asm) findCommand_index_from.simps) simp
    show ?thesis
    proof (cases "m = i")
      case True
      with False show ?thesis by simp
    next
      case neq: False
      with "1.prems" have "Suc i \<le> m" by simp
      from "1.IH" [OF il False rec this "1.prems"(3)] show ?thesis .
    qed
  qed
qed

lemma findCommand_first:
  assumes "k < length commands" "hasAlias (commands ! k) token"
    and "\<forall>m<k. \<not> hasAlias (commands ! m) token"
  shows "findCommand_index commands token = Some k"
    and "findCommand commands token = Some (commands ! k)"
proof -
  show idx: "findCommand_index commands token = Some k"
    unfolding findCommand_index_def
    using assms by (intro findCommand_index_from_first) simp_all
  then show "findCommand commands token = Some (commands ! k)"
    by (simp add: findCommand_def findCommand_index_def findCommand_from_index)
qed

lemma findCommand_none:
  assumes "\<forall>c \<in> set commands. \<not> hasAlias c token"
  shows "findCommand commands token = None"
proof -
  have "findCommand_index_from commands token 0 = None"
    using assms by (intro findCommand_index_from_none) simp
  then show ?thesis
    by (simp add: findCommand_def findCommand_from_index)
qed

subsection \<open>Resolution by name or alias\<close>

text \<open>
  Claim C1, as amended. \<open>findCommand\<close> returns the first-registered command that has the
  token as its primary name or among its aliases, by exact, case-sensitive equality of
  strings. So for the command \<open>C\<close> registered at position \<open>k\<close> and a token \<open>t\<close> that is
  its name or one of its aliases, \<open>findCommand t\<close> returns \<open>C\<close> (and the scan stops at
  \<open>k\<close>) whenever no command registered before \<open>C\<close> has \<open>t\<close> as name or alias; and
  \<open>findCommand t\<close> returns \<open>null\<close> whenever \<open>t\<close> is neither the name nor an alias of
  any registered command.
\<close>

theorem findCommand_resolves:
  "(k < length commands \<and> (t = name (commands ! k) \<or> t \<in> set (aliases (commands ! k))) \<and>
      (\<forall>m<k. t \<noteq> name (commands ! m) \<and> t \<notin> set (aliases (commands ! m)))
      \<longrightarrow> findCommand commands t = Some (commands ! k) \<and> findCommand_index commands t = Some k) \<and>
   ((\<forall>c \<in> set commands. t \<noteq> name c \<and> t \<notin> set (aliases c))
      \<longrightarrow> findCommand commands t = None)"
proof (intro conjI impI)
  assume a: "k < length commands \<and> (t = name (commands ! k) \<or> t \<in> set (aliases (commands ! k))) \<and>
      (\<forall>m<k. t \<noteq> name (commands ! m) \<and> t \<notin> set (aliases (commands ! m)))"
  then have h: "k < length commands" "hasAlias (commands ! k) t" "\<forall>m<k. \<not> hasAlias (commands ! m) t"
    by (simp_all add: hasAlias_def)
  from findCommand_first [OF h] show "findCommand commands t = Some (commands ! k)" 
    and "findCommand_index commands t = Some k" by simp_all
next
  assume "\<forall>c \<in> set commands. t \<noteq> name c \<and> t \<notin> set (aliases c)"
  then show "findCommand commands t = None"
    by (intro findCommand_none) (simp add: hasAlias_def)
qed

text \<open>
  The amended claim at the index \<open>[help, ban]\<close>: the name \<open>ban\<close> resolves to the second
  command, the alias \<open>?\<close> to the first, and \<open>Help\<close>, which differs from \<open>help\<close> in
  case only, to nothing.
\<close>

theorem findCommand_resolves_witness:
  "findCommand [cmd_help, cmd_ban] ''ban'' = Some cmd_ban \<and>
   findCommand_index [cmd_help, cmd_ban] ''ban'' = Some 1 \<and>
   findCommand [cmd_help, cmd_ban] ''?'' = Some cmd_help \<and>
   findCommand [cmd_help, cmd_ban] ''Help'' = None"
proof -
  have "findCommand [cmd_help, cmd_ban] ''ban'' = Some cmd_ban \<and>
        findCommand_index [cmd_help, cmd_ban] ''ban'' = Some 1"
    using findCommand_resolves [of 1 "[cmd_help, cmd_ban]" "''ban''"]
    by (simp add: cmd_help_def cmd_ban_def)
  moreover have "findCommand [cmd_help, cmd_ban] ''?'' = Some cmd_help"
    using findCommand_resolves [of 0 "[cmd_help, cmd_ban]" "''?''"]
    by (simp add: cmd_help_def cmd_ban_def)
  moreover have "findCommand [cmd_help, cmd_ban] ''Help'' = None"
    using findCommand_resolves [of 0 "[cmd_help, cmd_ban]" "''Help''"]
    by (simp add: cmd_help_def cmd_ban_def)
  ultimately show ?thesis by simp
qed

text \<open>
  Claim C1 as stated fails where a token is shared. With \<open>help\<close> (aliases \<open>h\<close>, \<open>?\<close>)
  registered before \<open>halt\<close> (alias \<open>h\<close>), \<open>halt\<close> is registered and \<open>h\<close> is one of
  its aliases, yet \<open>findCommand h\<close> does not return it; and \<open>halt\<close> is neither the name
  nor an alias of \<open>help\<close>, yet \<open>findCommand halt\<close> is not \<open>null\<close>.
\<close>

theorem findCommand_shadowed_counterexample:
  "cmd_halt \<in> set [cmd_help, cmd_halt] \<and> ''h'' \<in> set (aliases cmd_halt) \<and>
   findCommand [cmd_help, cmd_halt] ''h'' \<noteq> Some cmd_halt \<and>
   ''halt'' \<notin> insert (name cmd_help) (set (aliases cmd_help)) \<and>
   findCommand [cmd_help, cmd_halt] ''halt'' \<noteq> None"
  by (simp add: findCommand_def findCommand_from.simps hasAlias_def cmd_help_def cmd_halt_def)

text \<open>
  Claim C4. When the commands registered at positions \<open>i < j\<close> both answer
  \<^verbatim>\<open>hasAlias(t)\<close> (they share \<open>t\<close> as a name or an alias), the scan never returns at \<open>j\<close>: the later-registered command is
  not the one found. When the command at \<open>i\<close> is the first-registered that has \<open>t\<close>,
  the scan returns at \<open>i\<close> and \<open>findCommand t\<close> is that command. \<open>findCommand\<close> is a
  function of the index and the token, so every call gives the same answer.
\<close>

theorem findCommand_first_registered_wins:
  assumes "i < j" and "j < length commands"
    and "hasAlias (commands ! i) t"
    and "hasAlias (commands ! j) t"
  shows "findCommand_index commands t \<noteq> Some j \<and>
         ((\<forall>k<i. \<not> hasAlias (commands ! k) t) \<longrightarrow>
            findCommand_index commands t = Some i \<and> findCommand commands t = Some (commands ! i))"
proof (intro conjI impI)
  from assms have hi: "hasAlias (commands ! i) t" and il: "i < length commands"
    by simp_all
  show "findCommand_index commands t \<noteq> Some j"
  proof
    assume "findCommand_index commands t = Some j"
    then have "findCommand_index_from commands t 0 = Some j"
      by (simp add: findCommand_index_def)
    from findCommand_index_from_least [OF this _ assms(1)] hi show False by simp
  qed
  assume first: "\<forall>k<i. \<not> hasAlias (commands ! k) t"
  from findCommand_first [OF il hi first]
  show "findCommand_index commands t = Some i" and "findCommand commands t = Some (commands ! i)"
    by simp_all
qed

text \<open>
  Claim C4 at the index \<open>[ban, help, halt]\<close>, where \<open>help\<close> and \<open>halt\<close> share the alias
  \<open>h\<close>.
\<close>

theorem findCommand_first_registered_wins_witness:
  "findCommand_index [cmd_ban, cmd_help, cmd_halt] ''h'' = Some 1 \<and>
   findCommand_index [cmd_ban, cmd_help, cmd_halt] ''h'' \<noteq> Some 2 \<and>
   findCommand [cmd_ban, cmd_help, cmd_halt] ''h'' = Some cmd_help"
  using findCommand_first_registered_wins [of 1 2 "[cmd_ban, cmd_help, cmd_halt]" "''h''"]
  by (simp add: cmd_help_def cmd_halt_def cmd_ban_def hasAlias_def)

section \<open>Properties of the filesystem scanner\<close>

lemma scan_appends:
  "isDirectory node \<Longrightarrow>
     getFilesSync_node resolve node dir found = Inr (found @ loadablePaths resolve (allFiles node dir))"
  "getFilesSync_forEach resolve files dir found =
     Inr (found @ loadablePaths resolve (allFiles_entries files dir))"
proof (induction resolve node dir found and resolve files dir found
    rule: getFilesSync_node_getFilesSync_forEach.induct)
  case (1 resolve dir found)
  then show ?case by simp
next
  case (2 resolve files dir found)
  then show ?case by simp
next
  case (3 resolve dir found)
  show ?case by (simp add: loadablePaths_def)
next
  case (4 resolve f node files dir found)
  show ?case
  proof (cases "isDirectory node")
    case True
    from "4.IH"(1) [OF True True]
    have sub: "getFilesSync_node resolve node (dir @ ''/'' @ f) found =
        Inr (found @ loadablePaths resolve (allFiles node (dir @ ''/'' @ f)))" .
    from "4.IH"(2) [OF True sub]
    have "getFilesSync_forEach resolve files dir
            (found @ loadablePaths resolve (allFiles node (dir @ ''/'' @ f))) =
          Inr ((found @ loadablePaths resolve (allFiles node (dir @ ''/'' @ f))) @
               loadablePaths resolve (allFiles_entries files dir))" .
    with True sub show ?thesis by (simp add: loadablePaths_def)
  next
    case False
    show ?thesis
    proof (cases "endsWith (toLowerCase f) ''.js''")
      case True
      with False "4.IH"(3) show ?thesis by (simp add: loadablePaths_def)
    next
      case nojs: False
      with False "4.IH"(4) show ?thesis by (simp add: loadablePaths_def)
    qed
  qed
qed

text \<open>
  Claim C9. Scanning a directory tree returns, in traversal order, the resolved path
  \<^verbatim>\<open>dir + '/' + file\<close> of exactly those entries that are not directories and whose
  name, lower-cased, ends with \<open>.js\<close>: \<open>allFiles\<close> lists the entries that are not
  directories, and \<open>loadablePaths\<close> keeps those that pass the suffix test. The test is
  made on the lower-cased name, so \<open>Ping.JS\<close> and \<open>Help.Js\<close> qualify; a directory is
  descended into and never listed, whatever its name.
\<close>

theorem getFilesSync_case_insensitive:
  assumes "fs dir = Some node" and "isDirectory node"
  shows "getFilesSync resolve fs dir = Inr (loadablePaths resolve (allFiles node dir))"
  using assms scan_appends(1) [of node resolve dir "[]"]
  by (simp add: getFilesSync_def)

text \<open>
  Claim C9 on a tree with the files \<open>Ping.JS\<close>, \<open>README.md\<close> and \<open>Help.Js\<close>, the
  directory \<open>admin\<close> holding \<open>ban.js\<close> and \<open>notes.txt\<close>, and an empty directory
  named \<open>x.js\<close>.
\<close>

theorem getFilesSync_case_insensitive_witness:
  "getFilesSync (\<lambda>p. p) [''/bot/commands'' \<mapsto> ex_tree] ''/bot/commands'' =
     Inr [''/bot/commands/Ping.JS'', ''/bot/commands/admin/ban.js'', ''/bot/commands/Help.Js'']"
proof -
  have d: "isDirectory ex_tree"
    by (simp add: ex_tree_def)
  have l: "loadablePaths (\<lambda>p. p) (allFiles ex_tree ''/bot/commands'') =
      [''/bot/commands/Ping.JS'', ''/bot/commands/admin/ban.js'', ''/bot/commands/Help.Js'']"
    by code_simp
  show ?thesis
    using getFilesSync_case_insensitive [OF _ d, of "[''/bot/commands'' \<mapsto> ex_tree]" "''/bot/commands''" "\<lambda>p. p"] l
    by simp
qed

text \<open>
  Claim C3 as stated fails for the enumeration itself: on a path where nothing exists
  \<^verbatim>\<open>getFilesSync\<close> does not produce the empty sequence, it raises the \<^verbatim>\<open>ENOENT\<close> of
  \<^verbatim>\<open>fs.readdirSync\<close>.
\<close>

theorem getFilesSync_missing_directory_counterexample:
  "\<not> existsSync (host_files ex_host) ''/bot/jobs'' \<and>
   getFilesSync (path_resolve ex_host) (host_files ex_host) ''/bot/jobs'' = Inl (ENOENT ''/bot/jobs'') \<and>
   getFilesSync (path_resolve ex_host) (host_files ex_host) ''/bot/jobs'' \<noteq> Inr []"
  by (simp add: existsSync_def getFilesSync_def ex_host_def)

section \<open>Properties of the plugin registry\<close>

text \<open>
  Claim C3, as amended. Each of the four load passes tests \<^verbatim>\<open>fs.existsSync\<close> before it
  scans. Given a directory that does not exist (passed in, or the default one), the pass
  completes without an error, leaves the Command Index as it was, loads no module and
  starts nothing: all it does is write its "Scanning for ..." line to the verbose log.
  The enumeration is not run on that directory.
\<close>

theorem load_pass_missing_directory:
  "(\<not> existsSync (host_files h) (scanRoot (commandsDir h) inDirectory) \<longrightarrow>
      loadCommands h inDirectory r =
        (None, emit (Verbose [''Scanning for commands:'', scanRoot (commandsDir h) inDirectory]) r)) \<and>
   (\<not> existsSync (host_files h) (scanRoot (listenersDir h) inDirectory) \<longrightarrow>
      loadListeners h inDirectory r =
        (None, emit (Verbose [''Scanning for listeners:'', scanRoot (listenersDir h) inDirectory]) r)) \<and>
   (\<not> existsSync (host_files h) (scanRoot (scriptsDir h) inDirectory) \<longrightarrow>
      loadScripts h inDirectory r =
        (None, emit (Verbose [''Scanning for scripts:'', scanRoot (scriptsDir h) inDirectory]) r)) \<and>
   (\<not> existsSync (host_files h) (scanRoot (jobsDir h) inDirectory) \<longrightarrow>
      loadJobs h inDirectory r =
        (None, emit (Verbose [''Scanning for jobs:'', scanRoot (jobsDir h) inDirectory]) r))"
proof (cases inDirectory)
  case None
  then show ?thesis
    by (simp add: scanRoot_def loadCommands_def loadCommands_in_def loadListeners_def
        loadListeners_in_def loadScripts_def loadScripts_in_def loadJobs_def loadJobs_in_def)
next
  case (Some d)
  then show ?thesis
    by (simp add: scanRoot_def loadCommands_def loadCommands_in_def loadListeners_def
        loadListeners_in_def loadScripts_def loadScripts_in_def loadJobs_def loadJobs_in_def)
qed

text \<open>
  The amended claim C3 on a host that has \<open>/bot/commands\<close> only: the four passes on the
  missing directory \<open>/nowhere\<close>, and the job pass on its missing default directory.
\<close>

theorem load_pass_missing_directory_witness:
  "\<not> existsSync (host_files ex_host) ''/nowhere'' \<and>
   loadCommands ex_host (Some ''/nowhere'') ex_registry =
     (None, \<lparr>fw_commands = [], fw_events = [Verbose [''Scanning for commands:'', ''/nowhere'']]\<rparr>) \<and>
   loadListeners ex_host (Some ''/nowhere'') ex_registry =
     (None, \<lparr>fw_commands = [], fw_events = [Verbose [''Scanning for listeners:'', ''/nowhere'']]\<rparr>) \<and>
   loadScripts ex_host (Some ''/nowhere'') ex_registry =
     (None, \<lparr>fw_commands = [], fw_events = [Verbose [''Scanning for scripts:'', ''/nowhere'']]\<rparr>) \<and>
   loadJobs ex_host (Some ''/nowhere'') ex_registry =
     (None, \<lparr>fw_commands = [], fw_events = [Verbose [''Scanning for jobs:'', ''/nowhere'']]\<rparr>) \<and>
   \<not> existsSync (host_files ex_host) (jobsDir ex_host) \<and>
   loadJobs ex_host None ex_registry =
     (None, \<lparr>fw_commands = [], fw_events = [Verbose [''Scanning for jobs:'', ''/bot/jobs'']]\<rparr>)"
proof -
  have n: "\<not> existsSync (host_files ex_host) ''/nowhere''"
    and j: "\<not> existsSync (host_files ex_host) ''/bot/jobs''"
    by (simp_all add: existsSync_def ex_host_def)
  have jd: "jobsDir ex_host = ''/bot/jobs''"
    by (simp add: ex_host_def)
  have s: "scanRoot dflt (Some ''/nowhere'') = ''/nowhere''" for dflt
    by (simp add: scanRoot_def)
  have s': "scanRoot dflt None = dflt" for dflt
    by (simp add: scanRoot_def)
  have e: "emit (Verbose l) ex_registry = \<lparr>fw_commands = [], fw_events = [Verbose l]\<rparr>" for l
    by (simp add: emit_def ex_registry_def)
  show ?thesis
    using load_pass_missing_directory [of ex_host "Some ''/nowhere''" ex_registry]
      load_pass_missing_directory [of ex_host None ex_registry] n j
    by (simp add: s s' e jd)
qed

lemma loadCommands_classes_exact:
  "loadCommands_classes classes r =
     (classesFailure classes, r\<lparr>fw_commands := fw_commands r @ acceptedUntilFailure classes\<rparr>)"
proof (induction classes r rule: loadCommands_classes.induct)
  case (1 r)
  show ?case by simp
next
  case (2 className v classes r)
  show ?case
  proof (cases v)
    case NotAFunction
    with "2.IH"(1) show ?thesis by simp
  next
    case (Function new)
    show ?thesis
    proof (cases new)
      case (Inl e)
      with Function show ?thesis by simp
    next
      case (Inr inst)
      show ?thesis
      proof (cases inst)
        case (CommandInstance c)
        with Function Inr "2.IH"(2) [OF Function Inr CommandInstance]
        show ?thesis by simp
      next
        case (ListenerInstance l)
        with Function Inr "2.IH"(3) [OF Function Inr ListenerInstance]
        show ?thesis by simp
      next
        case (JobInstance j)
        with Function Inr "2.IH"(4) [OF Function Inr JobInstance]
        show ?thesis by simp
      next
        case OtherInstance
        with Function Inr "2.IH"(5) [OF Function Inr OtherInstance]
        show ?thesis by simp
      qed
    qed
  qed
qed

lemma acceptedUntilFailure_all:
  "classesFailure classes = None \<Longrightarrow> acceptedUntilFailure classes = acceptedCommands classes"
proof (induction classes)
  case Nil
  show ?case by (simp add: acceptedCommands_def)
next
  case (Cons x classes)
  obtain className v where x: "x = (className, v)" by (cases x)
  from Cons.prems x have "classesFailure classes = None"
    by (simp split: jsvalue.splits sum.splits)
  with Cons.IH have "acceptedUntilFailure classes = acceptedCommands classes" .
  with Cons.prems x show ?case
    by (simp add: acceptedCommands_def split: jsvalue.splits sum.splits)
qed

lemma loadCommands_forEach_exact:
  "fst (loadCommands_forEach h found r) = firstFailure h found \<and>
   fw_commands (snd (loadCommands_forEach h found r)) = fw_commands r @ registeredUntilFailure h found"
proof (induction found arbitrary: r)
  case Nil
  show ?case by simp
next
  case (Cons filePath found)
  define r1 where "r1 = emit (Required filePath) (emit (Verbose [''Hit:'', filePath]) r)"
  have c1: "fw_commands r1 = fw_commands r"
    by (simp add: r1_def emit_def)
  show ?case
  proof (cases "require h filePath")
    case (Inl e)
    then show ?thesis
      by (simp add: Let_def emit_def)
  next
    case (Inr classes)
    show ?thesis
    proof (cases "classesFailure classes")
      case None
      with Inr have "loadCommands_forEach h (filePath # found) r =
          loadCommands_forEach h found (r1\<lparr>fw_commands := fw_commands r1 @ acceptedUntilFailure classes\<rparr>)"
        by (simp add: Let_def loadCommands_classes_exact r1_def)
      with Cons.IH [of "r1\<lparr>fw_commands := fw_commands r1 @ acceptedUntilFailure classes\<rparr>"]
        None Inr c1 acceptedUntilFailure_all [OF None]
      show ?thesis by simp
    next
      case (Some e)
      with Inr have "loadCommands_forEach h (filePath # found) r =
          (Some e, r1\<lparr>fw_commands := fw_commands r1 @ acceptedUntilFailure classes\<rparr>)"
        by (simp add: Let_def loadCommands_classes_exact r1_def)
      with Some Inr c1 show ?thesis by simp
    qed
  qed
qed

lemma registeredUntilFailure_all:
  "firstFailure h found = None \<Longrightarrow> registeredUntilFailure h found = expectedCommands h found"
proof (induction found)
  case Nil
  show ?case by (simp add: expectedCommands_def)
next
  case (Cons filePath found)
  from Cons.prems obtain classes where r: "require h filePath = Inr classes"
    and c: "classesFailure classes = None" and f: "firstFailure h found = None"
    by (auto split: sum.splits option.splits)
  from Cons.IH [OF f] r c show ?case
    by (simp add: expectedCommands_def moduleExports_def)
qed

lemma loadCommands_scanRoot:
  "loadCommands h inDirectory r = loadCommands_in h (scanRoot (commandsDir h) inDirectory) r"
  by (cases inDirectory) (simp_all add: loadCommands_def scanRoot_def)

lemma loadCommands_in_exact:
  "fst (loadCommands_in h d r) = passFailure h d \<and>
   fw_commands (snd (loadCommands_in h d r)) = fw_commands r @ registeredUntilFailure h (discovered h d)"
proof (cases "existsSync (host_files h) d")
  case False
  then show ?thesis
    by (simp add: loadCommands_in_def passFailure_def scanFailure_def discovered_def emit_def)
next
  case True
  show ?thesis
  proof (cases "getFilesSync (path_resolve h) (host_files h) d")
    case (Inl e)
    with True show ?thesis
      by (simp add: loadCommands_in_def passFailure_def scanFailure_def discovered_def emit_def)
  next
    case (Inr found)
    with True loadCommands_forEach_exact [of h found "emit (Verbose [''Scanning for commands:'', d]) r"]
    show ?thesis
      by (simp add: loadCommands_in_def passFailure_def scanFailure_def discovered_def emit_def)
  qed
qed

text \<open>
  Claim C7, as amended. A command load pass ends with the first exception among: the
  scan of the directory, a discovered module that fails to load, a function-typed export
  whose instantiation throws (\<open>passFailure\<close>); nothing in the loader catches. Whatever
  way the pass ends, the Command Index afterwards is the index before followed, in order,
  by one instance for each exported value examined before that exception that is a
  function whose instantiation without arguments yields a \<^verbatim>\<open>Command\<close>; every other
  exported value examined leaves the index as it is. When there is no such exception the
  pass ends without one and every exported value of every discovered module has been
  examined: an instance has been appended for an exported value if and only if it is a
  function whose instantiation yields a \<^verbatim>\<open>Command\<close> (\<open>expectedCommands\<close>).
\<close>

theorem loadCommands_registers_accepted:
  "fst (loadCommands h inDirectory r) = passFailure h (scanRoot (commandsDir h) inDirectory) \<and>
   fw_commands (snd (loadCommands h inDirectory r)) =
     fw_commands r @
     registeredUntilFailure h (discovered h (scanRoot (commandsDir h) inDirectory)) \<and>
   (passFailure h (scanRoot (commandsDir h) inDirectory) = None \<longrightarrow>
      fst (loadCommands h inDirectory r) = None \<and>
      fw_commands (snd (loadCommands h inDirectory r)) =
        fw_commands r @ expectedCommands h (discovered h (scanRoot (commandsDir h) inDirectory)))"
proof -
  define d where "d = scanRoot (commandsDir h) inDirectory"
  have e: "fst (loadCommands h inDirectory r) = passFailure h d"
    and c: "fw_commands (snd (loadCommands h inDirectory r)) =
      fw_commands r @ registeredUntilFailure h (discovered h d)"
    using loadCommands_in_exact [of h d r] by (simp_all add: loadCommands_scanRoot d_def)
  have "passFailure h d = None \<longrightarrow>
      registeredUntilFailure h (discovered h d) = expectedCommands h (discovered h d)"
  proof
    assume "passFailure h d = None"
    then have "firstFailure h (discovered h d) = None"
      by (simp add: passFailure_def split: option.splits)
    then show "registeredUntilFailure h (discovered h d) = expectedCommands h (discovered h d)"
      by (rule registeredUntilFailure_all)
  qed
  with e c show ?thesis
    unfolding d_def by simp
qed

text \<open>
  The amended claim C7 on two hosts. On the first, \<open>Ping.JS\<close> exports a value that is
  not a function, the command \<open>help\<close> and a job, \<open>ban.js\<close> exports the command \<open>ban\<close>
  and \<open>Help.Js\<close> exports nothing: the pass completes and registers \<open>help\<close> and
  \<open>ban\<close>. On the second, \<open>Ping.JS\<close> exports \<open>help\<close>, a class whose constructor
  throws, and \<open>ban\<close>: the pass ends with that exception and has registered \<open>help\<close>.
\<close>

theorem loadCommands_registers_accepted_witness:
  "passFailure ex_host ''/bot/commands'' = None \<and>
   fst (loadCommands ex_host None ex_registry) = None \<and>
   fw_commands (snd (loadCommands ex_host None ex_registry)) = [cmd_help, cmd_ban] \<and>
   fst (loadCommands ex_throwing_host None ex_registry) = Some (ConstructorError ''Broken'') \<and>
   fw_commands (snd (loadCommands ex_throwing_host None ex_registry)) = [cmd_help]"
proof -
  have s: "scanRoot (commandsDir ex_host) None = ''/bot/commands''"
    "scanRoot (commandsDir ex_throwing_host) None = ''/bot/commands''"
    by (simp_all add: scanRoot_def ex_host_def ex_throwing_host_def)
  have p: "passFailure ex_host ''/bot/commands'' = None"
    by code_simp
  have d: "expectedCommands ex_host (discovered ex_host ''/bot/commands'') = [cmd_help, cmd_ban]"
    by code_simp
  have p': "passFailure ex_throwing_host ''/bot/commands'' = Some (ConstructorError ''Broken'')"
    by code_simp
  have d': "registeredUntilFailure ex_throwing_host (discovered ex_throwing_host ''/bot/commands'') =
      [cmd_help]"
    by code_simp
  have r: "fw_commands ex_registry = []"
    by (simp add: ex_registry_def)
  from loadCommands_registers_accepted [of ex_host None ex_registry]
    loadCommands_registers_accepted [of ex_throwing_host None ex_registry]
  show ?thesis
    by (auto simp: s p d p' d' r)
qed

text \<open>
  Claim C7 as stated fails in a pass that a constructor ends. On the second host the
  module \<open>Ping.JS\<close> is discovered and its export \<open>Ban\<close> is a function whose
  instantiation is the command \<open>ban\<close>, yet the pass ends at the export before it and
  \<open>ban\<close> is not in the index.
\<close>

theorem loadCommands_aborted_pass_counterexample:
  "''/bot/commands/Ping.JS'' \<in> set (discovered ex_throwing_host ''/bot/commands'') \<and>
   (''Ban'', Function (Inr (CommandInstance cmd_ban))) \<in>
     set (moduleExports ex_throwing_host ''/bot/commands/Ping.JS'') \<and>
   fst (loadCommands ex_throwing_host None ex_registry) = Some (ConstructorError ''Broken'') \<and>
   fw_commands (snd (loadCommands ex_throwing_host None ex_registry)) = [cmd_help] \<and>
   cmd_ban \<notin> set (fw_commands (snd (loadCommands ex_throwing_host None ex_registry)))"
  by code_simp

section \<open>Properties of the dispatch pipeline\<close>

subsection \<open>One message handled on its own\<close>

lemma runCommand_perform:
  "guildSettings s (msg_guild m) = Some b \<Longrightarrow>
     runCommand e m s = perform (commandEffects e (gb_prefix b) m) s"
  by (simp add: runCommand_def commandEffects_def perform_def Let_def split: option.splits)

lemma afterGuildSettings_cases:
  assumes "guildSettings s (msg_guild m) = Some b"
  shows "afterGuildSettings e m s =
     (if \<not> startsWith (msg_content m) (gb_prefix b) \<or> msg_bot m then s
      else if memberSettings s (msg_member m) = None then
        perform [MemberLoad (msg_member m)]
          (s\<lparr>memberSettings := (memberSettings s)(msg_member m \<mapsto> newMemberBucket (msg_member m)),
             suspended := suspended s @ [(m, AwaitMemberLoad)]\<rparr>)
      else perform (commandEffects e (gb_prefix b) m) s)"
  using assms runCommand_perform [OF assms, of e]
  by (simp add: afterGuildSettings_def)

lemma settleOwn_same:
  "length (suspended s') = n \<Longrightarrow> settleOwn e n s' = s'"
  by (simp add: settleOwn_def)

lemma settleOwn_last:
  "suspended s' = ts @ [t] \<Longrightarrow> length ts = n \<Longrightarrow>
     settleOwn e n s' = resume e t (s'\<lparr>suspended := ts\<rparr>)"
  by (simp add: settleOwn_def dropTask_def nth_append)

lemma member_stage:
  assumes g: "guildSettings s (msg_guild m) = Some b"
    and n: "length (suspended s) = n"
  shows "trace (settleOwn e n (afterGuildSettings e m s)) =
     trace s @
     (if \<not> startsWith (msg_content m) (gb_prefix b) \<or> msg_bot m then []
      else (if memberSettings s (msg_member m) = None then [MemberLoad (msg_member m)] else []) @
           commandEffects e (gb_prefix b) m)"
    and "length (suspended (settleOwn e n (afterGuildSettings e m s))) = n"
proof -
  consider (drop) "\<not> startsWith (msg_content m) (gb_prefix b) \<or> msg_bot m"
    | (load) "startsWith (msg_content m) (gb_prefix b)" "\<not> msg_bot m" "memberSettings s (msg_member m) = None"
    | (go) "startsWith (msg_content m) (gb_prefix b)" "\<not> msg_bot m" "memberSettings s (msg_member m) \<noteq> None"
    by blast
  then have "trace (settleOwn e n (afterGuildSettings e m s)) =
     trace s @
     (if \<not> startsWith (msg_content m) (gb_prefix b) \<or> msg_bot m then []
      else (if memberSettings s (msg_member m) = None then [MemberLoad (msg_member m)] else []) @
           commandEffects e (gb_prefix b) m) \<and>
     length (suspended (settleOwn e n (afterGuildSettings e m s))) = n"
  proof cases
    case drop
    then have "afterGuildSettings e m s = s"
      using afterGuildSettings_cases [OF g, of e] by auto
    with drop n show ?thesis
      by (auto simp: settleOwn_same)
  next
    case load
    let ?s1 = "perform [MemberLoad (msg_member m)]
          (s\<lparr>memberSettings := (memberSettings s)(msg_member m \<mapsto> newMemberBucket (msg_member m)),
             suspended := suspended s @ [(m, AwaitMemberLoad)]\<rparr>)"
    from load have a: "afterGuildSettings e m s = ?s1"
      using afterGuildSettings_cases [OF g, of e] by simp
    have sus: "suspended ?s1 = suspended s @ [(m, AwaitMemberLoad)]"
      by (simp add: perform_def)
    have "settleOwn e n ?s1 = resume e (m, AwaitMemberLoad) (?s1\<lparr>suspended := suspended s\<rparr>)"
      by (rule settleOwn_last [OF sus n])
    also have "\<dots> = perform (commandEffects e (gb_prefix b) m)
        (?s1\<lparr>suspended := suspended s,
             memberSettings := (memberSettings s)(msg_member m \<mapsto> loadedMemberBucket (newMemberBucket (msg_member m)))\<rparr>)"
      using g by (simp add: runCommand_perform [where b = b] perform_def)
    finally show ?thesis
      using load n a by (simp add: perform_def)
  next
    case go
    then have "afterGuildSettings e m s = perform (commandEffects e (gb_prefix b) m) s"
      using afterGuildSettings_cases [OF g, of e] by auto
    with go n show ?thesis
      by (auto simp: settleOwn_same perform_def)
  qed
  then show "trace (settleOwn e n (afterGuildSettings e m s)) =
     trace s @
     (if \<not> startsWith (msg_content m) (gb_prefix b) \<or> msg_bot m then []
      else (if memberSettings s (msg_member m) = None then [MemberLoad (msg_member m)] else []) @
           commandEffects e (gb_prefix b) m)"
    and "length (suspended (settleOwn e n (afterGuildSettings e m s))) = n"
    by simp_all
qed

lemma dispatch_trace:
  "trace (dispatch e m s) =
     trace s @
     (if guildSettings s (msg_guild m) = None then [GuildLoad (msg_guild m)] else []) @
     (if \<not> startsWith (msg_content m) (guildPrefix e s (msg_guild m)) \<or> msg_bot m then []
      else (if memberSettings s (msg_member m) = None then [MemberLoad (msg_member m)] else []) @
           commandEffects e (guildPrefix e s (msg_guild m)) m)"
proof (cases "guildSettings s (msg_guild m)")
  case None
  define n where "n = length (suspended s)"
  define b where "b = loadedGuildBucket e (newGuildBucket e (msg_guild m))"
  define s1 where "s1 = perform [GuildLoad (msg_guild m)]
          (s\<lparr>guildSettings := (guildSettings s)(msg_guild m \<mapsto> newGuildBucket e (msg_guild m)),
             suspended := suspended s @ [(m, AwaitGuildLoad)]\<rparr>)"
  define s2 where "s2 = s\<lparr>trace := trace s @ [GuildLoad (msg_guild m)],
                           guildSettings := (guildSettings s)(msg_guild m \<mapsto> b)\<rparr>"
  have pb: "gb_prefix b = guildPrefix e s (msg_guild m)"
    using None by (simp add: b_def guildPrefix_def loadedGuildBucket_def newGuildBucket_def)
  have a: "step e (Arrives m) s = s1"
    using None by (simp add: onMessage_def s1_def)
  have sus: "suspended s1 = suspended s @ [(m, AwaitGuildLoad)]"
    by (simp add: s1_def perform_def)
  have "settleOwn e n s1 = resume e (m, AwaitGuildLoad) (s1\<lparr>suspended := suspended s\<rparr>)"
    by (rule settleOwn_last [OF sus]) (simp add: n_def)
  also have "\<dots> = afterGuildSettings e m s2"
    by (simp add: s1_def s2_def b_def perform_def)
  finally have st: "settleOwn e n s1 = afterGuildSettings e m s2" .
  have g2: "guildSettings s2 (msg_guild m) = Some b"
    and n2: "length (suspended s2) = n"
    and m2: "memberSettings s2 = memberSettings s"
    and t2: "trace s2 = trace s @ [GuildLoad (msg_guild m)]"
    by (simp_all add: s2_def n_def)
  have "trace (dispatch e m s) = trace (settleOwn e n (afterGuildSettings e m s2))"
    by (simp add: dispatch_def Let_def a n_def [symmetric] st del: step.simps)
  also note member_stage(1) [OF g2 n2, of e]
  finally show ?thesis
    using None by (simp add: pb m2 t2)
next
  case (Some b)
  define n where "n = length (suspended s)"
  have pb: "gb_prefix b = guildPrefix e s (msg_guild m)"
    using Some by (simp add: guildPrefix_def)
  have a: "step e (Arrives m) s = afterGuildSettings e m s"
    using Some by (simp add: onMessage_def)
  have n': "length (suspended s) = n"
    by (simp add: n_def)
  have l: "length (suspended (settleOwn e n (afterGuildSettings e m s))) = n"
    by (rule member_stage(2) [OF Some n'])
  have "trace (dispatch e m s) = trace (settleOwn e n (afterGuildSettings e m s))"
    by (simp add: dispatch_def Let_def a n_def [symmetric] settleOwn_same [OF l] del: step.simps)
  also note member_stage(1) [OF Some n', of e]
  finally show ?thesis
    using Some by (simp add: pb)
qed

lemma effectsOf_dispatch:
  "trace (dispatch e m s) = trace s @ effectsOf e m s"
  "effectsOf e m s =
     (if guildSettings s (msg_guild m) = None then [GuildLoad (msg_guild m)] else []) @
     (if \<not> startsWith (msg_content m) (guildPrefix e s (msg_guild m)) \<or> msg_bot m then []
      else (if memberSettings s (msg_member m) = None then [MemberLoad (msg_member m)] else []) @
           commandEffects e (guildPrefix e s (msg_guild m)) m)"
  by (simp_all add: effectsOf_def dispatch_trace)

text \<open>
  Claim C5. A message that gets past the prefix and bot tests and whose input resolves to
  a command \<open>c\<close>, with fewer argument tokens than \<open>c\<close> declares as its minimum, makes
  the handler send exactly one message, to the channel of the message, with the text
  \<open>Usage:\<close>, two spaces, and the usage template of \<open>c\<close> between backquotes; \<open>execute\<close>
  is not called.
\<close>

theorem usage_on_insufficient_arguments:
  assumes "startsWith (msg_content m) (guildPrefix e s (msg_guild m))"
    and "\<not> msg_bot m"
    and "getCommand (newInput e (guildPrefix e s (msg_guild m)) m) = Some c"
    and "length (in_args (newInput e (guildPrefix e s (msg_guild m)) m)) < minArgs c"
  shows "filter isSend (effectsOf e m s) = [Send (msg_channel m) (''Usage:  `'' @ usage c @ ''`'')] \<and>
         filter isExecute (effectsOf e m s) = []"
  using assms
  by (simp add: effectsOf_dispatch commandEffects_def Let_def isProper_def getCommand_def getUsage_def)

text \<open>
  Claim C5 on the example of the specification: \<open>ban\<close> needs two arguments and
  \<open>!ban alice\<close> gives one.
\<close>

theorem usage_on_insufficient_arguments_witness:
  "filter isSend (effectsOf ex_env (ex_msg ''g1'' ''!ban alice'') initial) =
     [Send ''c1'' ''Usage:  `ban <user> <reason>`''] \<and>
   filter isExecute (effectsOf ex_env (ex_msg ''g1'' ''!ban alice'') initial) = []"
proof -
  have p: "guildPrefix ex_env initial ''g1'' = ''!''"
    by (simp add: guildPrefix_def initial_def ex_env_def)
  have m: "msg_content (ex_msg ''g1'' ''!ban alice'') = ''!ban alice''"
    "msg_guild (ex_msg ''g1'' ''!ban alice'') = ''g1''"
    "\<not> msg_bot (ex_msg ''g1'' ''!ban alice'')"
    "msg_channel (ex_msg ''g1'' ''!ban alice'') = ''c1''"
    by (simp_all add: ex_msg_def)
  have s: "startsWith ''!ban alice'' ''!''"
    by (simp add: startsWith_def)
  have c: "getCommand (newInput ex_env ''!'' (ex_msg ''g1'' ''!ban alice'')) = Some cmd_ban"
    by code_simp
  have a: "length (in_args (newInput ex_env ''!'' (ex_msg ''g1'' ''!ban alice''))) < minArgs cmd_ban"
    by code_simp
  have u: "usage cmd_ban = ''ban <user> <reason>''"
    by (simp add: cmd_ban_def)
  from usage_on_insufficient_arguments [of "ex_msg ''g1'' ''!ban alice''" ex_env initial cmd_ban]
  show ?thesis
    by (simp add: p m s c a u)
qed

text \<open>
  Claim C6. A message that gets past the prefix and bot tests and whose input resolves to
  a command \<open>c\<close>, with at least as many argument tokens as \<open>c\<close> declares as its
  minimum, makes the handler call \<open>execute\<close> of \<open>c\<close> exactly once, on the input built
  from the message, whose argument tokens are the tokens of the text after the prefix
  without the first one (the command name); no message is sent.
\<close>

theorem execute_on_proper_input:
  assumes "startsWith (msg_content m) (guildPrefix e s (msg_guild m))"
    and "\<not> msg_bot m"
    and "getCommand (newInput e (guildPrefix e s (msg_guild m)) m) = Some c"
    and "minArgs c \<le> length (in_args (newInput e (guildPrefix e s (msg_guild m)) m))"
  shows "filter isExecute (effectsOf e m s) =
           [Execute c (newInput e (guildPrefix e s (msg_guild m)) m)] \<and>
         in_args (newInput e (guildPrefix e s (msg_guild m)) m) =
           tl (env_tokenize e (drop (length (guildPrefix e s (msg_guild m))) (msg_content m))) \<and>
         filter isSend (effectsOf e m s) = []"
  using assms
  by (simp add: effectsOf_dispatch commandEffects_def Let_def isProper_def getCommand_def newInput_def)

text \<open>
  Claim C6 on \<open>!ban alice spam\<close>, and on the end-to-end example of the specification,
  \<open>!help\<close> with a command \<open>help\<close> that needs no argument.
\<close>

theorem execute_on_proper_input_witness:
  "filter isExecute (effectsOf ex_env (ex_msg ''g1'' ''!ban alice spam'') initial) =
     [Execute cmd_ban (newInput ex_env ''!'' (ex_msg ''g1'' ''!ban alice spam''))] \<and>
   in_args (newInput ex_env ''!'' (ex_msg ''g1'' ''!ban alice spam'')) = [''alice'', ''spam''] \<and>
   filter isSend (effectsOf ex_env (ex_msg ''g1'' ''!ban alice spam'') initial) = [] \<and>
   filter isExecute (effectsOf ex_env (ex_msg ''g1'' ''!help'') initial) =
     [Execute cmd_help (newInput ex_env ''!'' (ex_msg ''g1'' ''!help''))] \<and>
   filter isSend (effectsOf ex_env (ex_msg ''g1'' ''!help'') initial) = []"
proof -
  have p: "guildPrefix ex_env initial ''g1'' = ''!''"
    by (simp add: guildPrefix_def initial_def ex_env_def)
  have m: "msg_content (ex_msg ''g1'' t) = t" "msg_guild (ex_msg ''g1'' t) = ''g1''"
    "\<not> msg_bot (ex_msg ''g1'' t)" for t
    by (simp_all add: ex_msg_def)
  have s: "startsWith ''!ban alice spam'' ''!''" "startsWith ''!help'' ''!''"
    by (simp_all add: startsWith_def)
  have c: "getCommand (newInput ex_env ''!'' (ex_msg ''g1'' ''!ban alice spam'')) = Some cmd_ban"
    "getCommand (newInput ex_env ''!'' (ex_msg ''g1'' ''!help'')) = Some cmd_help"
    by code_simp+
  have a: "minArgs cmd_ban \<le> length (in_args (newInput ex_env ''!'' (ex_msg ''g1'' ''!ban alice spam'')))"
    "minArgs cmd_help \<le> length (in_args (newInput ex_env ''!'' (ex_msg ''g1'' ''!help'')))"
    by code_simp+
  have t: "tl (env_tokenize ex_env ''ban alice spam'') = [''alice'', ''spam'']"
    by code_simp
  from execute_on_proper_input [of "ex_msg ''g1'' ''!ban alice spam''" ex_env initial cmd_ban]
    execute_on_proper_input [of "ex_msg ''g1'' ''!help''" ex_env initial cmd_help]
  show ?thesis
    by (simp add: p m s c a t)
qed

subsection \<open>Interleaved handlers\<close>

lemma guildLoads_append [simp]:
  "guildLoads g (xs @ ys) = guildLoads g xs + guildLoads g ys"
  by (simp add: guildLoads_def)

lemma guildLoads_single [simp]:
  "guildLoads g [] = 0"
  "guildLoads g [GuildLoad g'] = (if g' = g then 1 else 0)"
  "guildLoads g [MemberLoad x] = 0"
  "guildLoads g [Raised m] = 0"
  by (auto simp: guildLoads_def)

lemma guildLoads_commandEffects [simp]:
  "guildLoads g (commandEffects e pfx m) = 0"
  by (simp add: guildLoads_def commandEffects_def Let_def split: option.splits)

lemma runCommand_guild:
  "guildSettings (runCommand e m s) = guildSettings s"
  "guildLoads g (trace (runCommand e m s)) = guildLoads g (trace s)"
proof -
  show "guildSettings (runCommand e m s) = guildSettings s"
    by (cases "guildSettings s (msg_guild m)")
       (simp_all add: runCommand_def perform_def Let_def split: option.splits)
  show "guildLoads g (trace (runCommand e m s)) = guildLoads g (trace s)"
  proof (cases "guildSettings s (msg_guild m)")
    case None
    then show ?thesis
      by (simp add: runCommand_def perform_def)
  next
    case (Some b)
    then show ?thesis
      by (simp add: runCommand_perform perform_def)
  qed
qed

lemma afterGuildSettings_guild:
  "guildSettings (afterGuildSettings e m s) = guildSettings s"
  "guildLoads g (trace (afterGuildSettings e m s)) = guildLoads g (trace s)"
proof -
  show "guildSettings (afterGuildSettings e m s) = guildSettings s"
  proof (cases "guildSettings s (msg_guild m)")
    case None
    then show ?thesis
      by (simp add: afterGuildSettings_def perform_def)
  next
    case (Some b)
    then show ?thesis
      by (simp add: afterGuildSettings_cases perform_def)
  qed
  show "guildLoads g (trace (afterGuildSettings e m s)) = guildLoads g (trace s)"
  proof (cases "guildSettings s (msg_guild m)")
    case None
    then show ?thesis
      by (simp add: afterGuildSettings_def perform_def)
  next
    case (Some b)
    then show ?thesis
      by (simp add: afterGuildSettings_cases perform_def)
  qed
qed

lemma resume_guild:
  "(guildSettings (resume e t s) g = None) = (guildSettings s g = None)"
  "guildLoads g (trace (resume e t s)) = guildLoads g (trace s)"
proof -
  obtain m a where t: "t = (m, a)" by (cases t)
  show "(guildSettings (resume e t s) g = None) = (guildSettings s g = None)"
    unfolding t by (cases a) (simp_all add: afterGuildSettings_guild runCommand_guild)
  show "guildLoads g (trace (resume e t s)) = guildLoads g (trace s)"
    unfolding t by (cases a) (simp_all add: afterGuildSettings_guild runCommand_guild)
qed

lemma dropTask_guild [simp]:
  "guildSettings (dropTask i s) = guildSettings s"
  "trace (dropTask i s) = trace s"
  by (simp_all add: dropTask_def)

lemma step_guild:
  "(guildSettings (step e a s) g = None) =
     (guildSettings s g = None \<and> (\<forall>m. a = Arrives m \<longrightarrow> msg_guild m \<noteq> g))"
  "guildLoads g (trace (step e a s)) =
     guildLoads g (trace s) +
     (if guildSettings s g = None \<and> (\<exists>m. a = Arrives m \<and> msg_guild m = g) then 1 else 0)"
proof -
  show "(guildSettings (step e a s) g = None) =
     (guildSettings s g = None \<and> (\<forall>m. a = Arrives m \<longrightarrow> msg_guild m \<noteq> g))"
  proof (cases a)
    case (Arrives m)
    then show ?thesis
      by (auto simp: onMessage_def perform_def afterGuildSettings_guild)
  next
    case (LoadCompletes i)
    then show ?thesis
      by (simp add: resume_guild)
  next
    case (LoadFails i)
    then show ?thesis
      by simp
  qed
  show "guildLoads g (trace (step e a s)) =
     guildLoads g (trace s) +
     (if guildSettings s g = None \<and> (\<exists>m. a = Arrives m \<and> msg_guild m = g) then 1 else 0)"
  proof (cases a)
    case (Arrives m)
    then show ?thesis
      by (auto simp: onMessage_def perform_def afterGuildSettings_guild)
  next
    case (LoadCompletes i)
    then show ?thesis
      by (simp add: resume_guild)
  next
    case (LoadFails i)
    then show ?thesis
      by simp
  qed
qed

lemma run_snoc:
  "run e (as @ [a]) s = step e a (run e as s)"
  by (induction as arbitrary: s) simp_all

lemma run_guild_invariant:
  "guildLoads g (trace (run e as initial)) =
     (if guildSettings (run e as initial) g = None then 0 else 1)"
proof (induction as rule: rev_induct)
  case Nil
  show ?case by (simp add: initial_def)
next
  case (snoc a as)
  show ?case
    unfolding run_snoc step_guild using snoc.IH by auto
qed

text \<open>
  Claim C2. Along every schedule from the start of the process (any messages in any
  order, loads completing or failing at any time, so also two messages of one guild
  arriving before the load issued for the first has completed), the load of a guild's
  bucket is issued at most once. No load has been issued for a guild that has no bucket
  attached, and once a bucket is attached no step, whatever it is, issues another.
\<close>

theorem guild_settings_loaded_at_most_once:
  "guildLoads g (trace (run e as initial)) \<le> 1 \<and>
   (guildSettings (run e as initial) g = None \<longrightarrow>
      guildLoads g (trace (run e as initial)) = 0) \<and>
   (guildSettings (run e as initial) g \<noteq> None \<longrightarrow>
      guildLoads g (trace (step e a (run e as initial))) = guildLoads g (trace (run e as initial)))"
  by (simp add: run_guild_invariant step_guild(2))

text \<open>
  Claim C2 on two messages of the guild \<open>g2\<close>: the first has attached a bucket and its
  handler is suspended at the load; the second arrives then, and the load count of the
  guild stays at one.
\<close>

theorem guild_settings_loaded_at_most_once_witness:
  "guildSettings (run ex_env [Arrives (ex_msg ''g2'' ''?help'')] initial) ''g2'' \<noteq> None \<and>
   suspended (run ex_env [Arrives (ex_msg ''g2'' ''?help'')] initial) =
     [(ex_msg ''g2'' ''?help'', AwaitGuildLoad)] \<and>
   guildLoads ''g2'' (trace (step ex_env (Arrives (ex_msg ''g2'' ''!help''))
       (run ex_env [Arrives (ex_msg ''g2'' ''?help'')] initial))) = 1"
proof -
  have a: "guildSettings (run ex_env [Arrives (ex_msg ''g2'' ''?help'')] initial) ''g2'' \<noteq> None"
    and b: "suspended (run ex_env [Arrives (ex_msg ''g2'' ''?help'')] initial) =
      [(ex_msg ''g2'' ''?help'', AwaitGuildLoad)]"
    and c: "guildLoads ''g2'' (trace (run ex_env [Arrives (ex_msg ''g2'' ''?help'')] initial)) = 1"
    by (simp_all add: onMessage_def initial_def perform_def ex_msg_def)
  from guild_settings_loaded_at_most_once
    [of "''g2''" ex_env "[Arrives (ex_msg ''g2'' ''?help'')]" "Arrives (ex_msg ''g2'' ''!help'')"] a
  have "guildLoads ''g2'' (trace (step ex_env (Arrives (ex_msg ''g2'' ''!help''))
       (run ex_env [Arrives (ex_msg ''g2'' ''?help'')] initial))) =
     guildLoads ''g2'' (trace (run ex_env [Arrives (ex_msg ''g2'' ''?help'')] initial))"
    by blast
  with a b c show ?thesis
    by (simp only: simp_thms)
qed

text \<open>
  Claim C10. The first segment of the handler attaches the new bucket to the guild
  before it suspends at the load: when it suspends, the guild holds a bucket that is not
  loaded and has the prefix of a new bucket. A message of a guild that holds a bucket,
  loaded or not, starts with the prefix test: it issues no load of a guild's bucket and
  changes no guild's bucket, is dropped when its text does not begin with the prefix the
  bucket holds at that moment, and otherwise goes on with that prefix. The same holds of
  the member: the new bucket is attached before the handler suspends at its load, and
  a message of a member that holds a bucket goes straight to the command.
\<close>

theorem bucket_attached_before_load_awaited:
  "(guildSettings s (msg_guild m) = None \<longrightarrow>
      guildSettings (step e (Arrives m) s) (msg_guild m) = Some (newGuildBucket e (msg_guild m)) \<and>
      \<not> gb_loaded (newGuildBucket e (msg_guild m)) \<and>
      gb_prefix (newGuildBucket e (msg_guild m)) = env_initialPrefix e \<and>
      suspended (step e (Arrives m) s) = suspended s @ [(m, AwaitGuildLoad)] \<and>
      trace (step e (Arrives m) s) = trace s @ [GuildLoad (msg_guild m)]) \<and>
   (guildSettings s (msg_guild m) = Some b \<longrightarrow>
      step e (Arrives m) s = afterGuildSettings e m s \<and>
      guildLoads g (trace (step e (Arrives m) s)) = guildLoads g (trace s) \<and>
      guildSettings (step e (Arrives m) s) = guildSettings s) \<and>
   (guildSettings s (msg_guild m) = Some b \<and> \<not> startsWith (msg_content m) (gb_prefix b) \<longrightarrow>
      step e (Arrives m) s = s) \<and>
   (guildSettings s (msg_guild m) = Some b \<and> startsWith (msg_content m) (gb_prefix b) \<and>
    \<not> msg_bot m \<and> memberSettings s (msg_member m) = None \<longrightarrow>
      memberSettings (step e (Arrives m) s) (msg_member m) = Some (newMemberBucket (msg_member m)) \<and>
      \<not> mb_loaded (newMemberBucket (msg_member m)) \<and>
      suspended (step e (Arrives m) s) = suspended s @ [(m, AwaitMemberLoad)] \<and>
      trace (step e (Arrives m) s) = trace s @ [MemberLoad (msg_member m)]) \<and>
   (guildSettings s (msg_guild m) = Some b \<and> startsWith (msg_content m) (gb_prefix b) \<and>
    \<not> msg_bot m \<and> memberSettings s (msg_member m) = Some mb \<longrightarrow>
      step e (Arrives m) s = perform (commandEffects e (gb_prefix b) m) s)"
proof (intro conjI impI)
  assume "guildSettings s (msg_guild m) = None"
  then show "guildSettings (step e (Arrives m) s) (msg_guild m) = Some (newGuildBucket e (msg_guild m))"
    and "suspended (step e (Arrives m) s) = suspended s @ [(m, AwaitGuildLoad)]"
    and "trace (step e (Arrives m) s) = trace s @ [GuildLoad (msg_guild m)]"
    by (simp_all add: onMessage_def perform_def)
  show "\<not> gb_loaded (newGuildBucket e (msg_guild m))"
    and "gb_prefix (newGuildBucket e (msg_guild m)) = env_initialPrefix e"
    by (simp_all add: newGuildBucket_def)
next
  assume b: "guildSettings s (msg_guild m) = Some b"
  then show st: "step e (Arrives m) s = afterGuildSettings e m s"
    by (simp add: onMessage_def)
  show "guildLoads g (trace (step e (Arrives m) s)) = guildLoads g (trace s)"
    and "guildSettings (step e (Arrives m) s) = guildSettings s"
    unfolding st by (simp_all add: afterGuildSettings_guild)
next
  assume "guildSettings s (msg_guild m) = Some b \<and> \<not> startsWith (msg_content m) (gb_prefix b)"
  then show "step e (Arrives m) s = s"
    by (simp add: onMessage_def afterGuildSettings_cases)
next
  assume a: "guildSettings s (msg_guild m) = Some b \<and> startsWith (msg_content m) (gb_prefix b) \<and>
    \<not> msg_bot m \<and> memberSettings s (msg_member m) = None"
  then have "step e (Arrives m) s =
      perform [MemberLoad (msg_member m)]
        (s\<lparr>memberSettings := (memberSettings s)(msg_member m \<mapsto> newMemberBucket (msg_member m)),
           suspended := suspended s @ [(m, AwaitMemberLoad)]\<rparr>)"
    by (simp add: onMessage_def afterGuildSettings_cases)
  then show "memberSettings (step e (Arrives m) s) (msg_member m) = Some (newMemberBucket (msg_member m))"
    and "suspended (step e (Arrives m) s) = suspended s @ [(m, AwaitMemberLoad)]"
    and "trace (step e (Arrives m) s) = trace s @ [MemberLoad (msg_member m)]"
    by (simp_all add: perform_def)
  show "\<not> mb_loaded (newMemberBucket (msg_member m))"
    by (simp add: newMemberBucket_def)
next
  assume "guildSettings s (msg_guild m) = Some b \<and> startsWith (msg_content m) (gb_prefix b) \<and>
    \<not> msg_bot m \<and> memberSettings s (msg_member m) = Some mb"
  then show "step e (Arrives m) s = perform (commandEffects e (gb_prefix b) m) s"
    by (simp add: onMessage_def afterGuildSettings_cases)
qed

text \<open>
  Claim C10 on the guild \<open>g2\<close>, whose stored prefix is \<open>?\<close> while a new bucket holds
  \<open>!\<close>. After the first message the bucket is attached and its load awaited. Before
  the load completes, \<open>?ban x\<close> is dropped although it begins with the stored prefix,
  \<open>!help\<close> passes the prefix test and issues the load of the member's bucket, and a
  second \<open>!help\<close> finds that bucket attached and runs the command.
\<close>

theorem bucket_attached_before_load_awaited_witness:
  "guildSettings (step ex_env (Arrives (ex_msg ''g2'' ''?help'')) initial) ''g2'' =
     Some (newGuildBucket ex_env ''g2'') \<and>
   gb_prefix (newGuildBucket ex_env ''g2'') = ''!'' \<and>
   env_storedPrefix ex_env ''g2'' = ''?'' \<and>
   suspended (step ex_env (Arrives (ex_msg ''g2'' ''?help'')) initial) =
     [(ex_msg ''g2'' ''?help'', AwaitGuildLoad)] \<and>
   step ex_env (Arrives (ex_msg ''g2'' ''?ban x''))
       (step ex_env (Arrives (ex_msg ''g2'' ''?help'')) initial) =
     step ex_env (Arrives (ex_msg ''g2'' ''?help'')) initial \<and>
   trace (step ex_env (Arrives (ex_msg ''g2'' ''!help''))
       (step ex_env (Arrives (ex_msg ''g2'' ''?help'')) initial)) =
     [GuildLoad ''g2'', MemberLoad ''m1''] \<and>
   trace (step ex_env (Arrives (ex_msg ''g2'' ''!help''))
       (step ex_env (Arrives (ex_msg ''g2'' ''!help''))
         (step ex_env (Arrives (ex_msg ''g2'' ''?help'')) initial))) =
     [GuildLoad ''g2'', MemberLoad ''m1''] @ commandEffects ex_env ''!'' (ex_msg ''g2'' ''!help'')"
proof -
  define s1 where "s1 = step ex_env (Arrives (ex_msg ''g2'' ''?help'')) initial"
  define s2 where "s2 = step ex_env (Arrives (ex_msg ''g2'' ''!help'')) s1"
  define b where "b = newGuildBucket ex_env ''g2''"
  have m: "msg_guild (ex_msg ''g2'' t) = ''g2''" "msg_content (ex_msg ''g2'' t) = t"
    "msg_member (ex_msg ''g2'' t) = ''m1''" "\<not> msg_bot (ex_msg ''g2'' t)" for t
    by (simp_all add: ex_msg_def)
  have i: "guildSettings initial ''g2'' = None" "suspended initial = []" "trace initial = []"
    "memberSettings initial = Map.empty"
    by (simp_all add: initial_def)
  have p: "gb_prefix b = ''!''" "env_initialPrefix ex_env = ''!''" "env_storedPrefix ex_env ''g2'' = ''?''"
    by (simp_all add: b_def newGuildBucket_def ex_env_def)
  have w: "\<not> startsWith ''?ban x'' ''!''" "startsWith ''!help'' ''!''"
    by (simp_all add: startsWith_def)
  from bucket_attached_before_load_awaited
    [where s = initial and m = "ex_msg ''g2'' ''?help''" and e = ex_env and g = "''g2''"]
  have g1: "guildSettings s1 ''g2'' = Some b"
    and u1: "suspended s1 = [(ex_msg ''g2'' ''?help'', AwaitGuildLoad)]"
    and t1: "trace s1 = [GuildLoad ''g2'']"
    by (auto simp: m i s1_def b_def simp del: step.simps)
  have n1: "memberSettings s1 ''m1'' = None"
    by (simp add: s1_def onMessage_def i perform_def m)
  from bucket_attached_before_load_awaited
    [where s = s1 and m = "ex_msg ''g2'' ''?ban x''" and b = b and e = ex_env and g = "''g2''"]
  have d: "step ex_env (Arrives (ex_msg ''g2'' ''?ban x'')) s1 = s1"
    by (auto simp: m g1 p w simp del: step.simps)
  from bucket_attached_before_load_awaited
    [where s = s1 and m = "ex_msg ''g2'' ''!help''" and b = b and e = ex_env and g = "''g2''"]
  have g2: "guildSettings s2 = guildSettings s1"
    and n2: "memberSettings s2 ''m1'' = Some (newMemberBucket ''m1'')"
    and t2: "trace s2 = [GuildLoad ''g2'', MemberLoad ''m1'']"
    by (auto simp: m g1 p w n1 t1 s2_def simp del: step.simps)
  from bucket_attached_before_load_awaited
    [where s = s2 and m = "ex_msg ''g2'' ''!help''" and b = b and mb = "newMemberBucket ''m1''"
      and e = ex_env and g = "''g2''"]
  have "step ex_env (Arrives (ex_msg ''g2'' ''!help'')) s2 =
      perform (commandEffects ex_env ''!'' (ex_msg ''g2'' ''!help'')) s2"
    by (auto simp: m g1 g2 p w n2 simp del: step.simps)
  then have t3: "trace (step ex_env (Arrives (ex_msg ''g2'' ''!help'')) s2) =
      [GuildLoad ''g2'', MemberLoad ''m1''] @ commandEffects ex_env ''!'' (ex_msg ''g2'' ''!help'')"
    by (simp add: perform_def t2)
  from g1 p u1 d t2 t3 show ?thesis
    unfolding s2_def s1_def b_def by (simp only: simp_thms)
qed

subsection \<open>The prefix test\<close>

lemma step_bucket_state:
  assumes inv: "\<And>g b. guildSettings s g = Some b \<Longrightarrow>
      gb_id b = g \<and> gb_prefix b = (if gb_loaded b then env_storedPrefix e g else env_initialPrefix e)"
    and st: "guildSettings (step e a s) g = Some b"
  shows "gb_id b = g \<and> gb_prefix b = (if gb_loaded b then env_storedPrefix e g else env_initialPrefix e)"
proof (cases a)
  case (Arrives m)
  show ?thesis
  proof (cases "guildSettings s (msg_guild m)")
    case None
    with Arrives st have "guildSettings s g = Some b \<or> (g = msg_guild m \<and> b = newGuildBucket e g)"
      by (auto simp: onMessage_def perform_def split: if_splits)
    with inv show ?thesis
      by (auto simp: newGuildBucket_def)
  next
    case (Some b')
    with Arrives st have "guildSettings s g = Some b"
      by (simp add: onMessage_def afterGuildSettings_guild)
    with inv show ?thesis by blast
  qed
next
  case (LoadCompletes i)
  show ?thesis
  proof (cases "i < length (suspended s)")
    case False
    with LoadCompletes st inv show ?thesis by simp
  next
    case True
    obtain m w where t: "suspended s ! i = (m, w)" by (cases "suspended s ! i")
    show ?thesis
    proof (cases w)
      case AwaitMemberLoad
      with LoadCompletes True t st have "guildSettings s g = Some b"
        by (simp add: runCommand_guild)
      with inv show ?thesis by blast
    next
      case AwaitGuildLoad
      with LoadCompletes True t st
      have "guildSettings s g = Some b \<or>
          (g = msg_guild m \<and> (\<exists>b0. guildSettings s g = Some b0 \<and> b = loadedGuildBucket e b0))"
        by (auto simp: afterGuildSettings_guild split: if_splits)
      with inv show ?thesis
        by (auto simp: loadedGuildBucket_def)
    qed
  qed
next
  case (LoadFails i)
  with st inv show ?thesis
    by (auto split: if_splits)
qed

lemma run_bucket_state:
  "guildSettings (run e as initial) g = Some b \<Longrightarrow>
     gb_id b = g \<and> gb_prefix b = (if gb_loaded b then env_storedPrefix e g else env_initialPrefix e)"
proof (induction as arbitrary: g b rule: rev_induct)
  case Nil
  then show ?case by (simp add: initial_def)
next
  case (snoc a as)
  from snoc.prems have "guildSettings (step e a (run e as initial)) g = Some b"
    by (simp add: run_snoc)
  with snoc.IH show ?case
    by (rule step_bucket_state)
qed

lemma guildPrefix_settled:
  "guildSettled (run e as initial) g \<Longrightarrow> guildPrefix e (run e as initial) g = env_storedPrefix e g"
  using run_bucket_state [of e as g]
  by (auto simp: guildSettled_def guildPrefix_def split: option.splits)

text \<open>
  Claim C8, as amended. At any point of any schedule from the start of the process, a
  message whose text does not begin with the configured prefix of its guild (the prefix
  the settings store holds for it) and that finds the guild settled (no bucket attached
  yet, so that the handler loads it before the test, or a bucket that has been loaded) is
  dropped at the prefix test: handling it queries the Command Index for nothing, sends
  nothing and executes nothing. All it can do is issue the load of the guild's bucket,
  when the guild had none.
\<close>

theorem no_prefix_no_lookup:
  assumes "guildSettled (run e as initial) (msg_guild m)"
    and "\<not> startsWith (msg_content m) (env_storedPrefix e (msg_guild m))"
  shows "trace (dispatch e m (run e as initial)) =
           trace (run e as initial) @ effectsOf e m (run e as initial) \<and>
         effectsOf e m (run e as initial) =
           (if guildSettings (run e as initial) (msg_guild m) = None
            then [GuildLoad (msg_guild m)] else []) \<and>
         filter isLookup (effectsOf e m (run e as initial)) = [] \<and>
         filter isSend (effectsOf e m (run e as initial)) = [] \<and>
         filter isExecute (effectsOf e m (run e as initial)) = []"
  using assms guildPrefix_settled [OF assms(1)]
  by (simp add: effectsOf_dispatch)

text \<open>
  The amended claim C8 on \<open>ban alice spam\<close>, the first message of a guild whose prefix
  is \<open>!\<close>, and on \<open>!help\<close> arriving after the bucket of a guild whose prefix is \<open>?\<close>
  has been loaded.
\<close>

theorem no_prefix_no_lookup_witness:
  "guildSettled (run ex_env [] initial) ''g1'' \<and>
   \<not> startsWith ''ban alice spam'' (env_storedPrefix ex_env ''g1'') \<and>
   trace (dispatch ex_env (ex_msg ''g1'' ''ban alice spam'') (run ex_env [] initial)) =
     [GuildLoad ''g1''] \<and>
   guildSettled (run ex_env [Arrives (ex_msg ''g2'' ''?help''), LoadCompletes 0] initial) ''g2'' \<and>
   \<not> startsWith ''!help'' (env_storedPrefix ex_env ''g2'') \<and>
   effectsOf ex_env (ex_msg ''g2'' ''!help'')
     (run ex_env [Arrives (ex_msg ''g2'' ''?help''), LoadCompletes 0] initial) = []"
proof -
  have m: "msg_content (ex_msg g t) = t" "msg_guild (ex_msg g t) = g" for g t
    by (simp_all add: ex_msg_def)
  have s1: "guildSettled (run ex_env [] initial) ''g1''"
    and g1: "guildSettings (run ex_env [] initial) ''g1'' = None"
    and t1: "trace (run ex_env [] initial) = []"
    by (simp_all add: guildSettled_def initial_def)
  have s2: "guildSettled (run ex_env [Arrives (ex_msg ''g2'' ''?help''), LoadCompletes 0] initial) ''g2''"
    by code_simp
  have g2: "guildSettings (run ex_env [Arrives (ex_msg ''g2'' ''?help''), LoadCompletes 0] initial) ''g2''
      \<noteq> None"
    by code_simp
  have p: "\<not> startsWith ''ban alice spam'' (env_storedPrefix ex_env ''g1'')"
    "\<not> startsWith ''!help'' (env_storedPrefix ex_env ''g2'')"
    by (simp_all add: startsWith_def ex_env_def)
  from no_prefix_no_lookup [of ex_env "[]" "ex_msg ''g1'' ''ban alice spam''"]
    no_prefix_no_lookup
      [of ex_env "[Arrives (ex_msg ''g2'' ''?help''), LoadCompletes 0]" "ex_msg ''g2'' ''!help''"]
  show ?thesis
    by (auto simp: m s1 g1 t1 s2 g2 p simp del: run.simps)
qed

text \<open>
  Claim C8 as stated fails for a message that finds the bucket attached and not loaded.
  The guild \<open>g2\<close> has the configured prefix \<open>?\<close> and a new bucket holds \<open>!\<close>. After
  a first message has attached the bucket, and while its load is pending, \<open>!help\<close>
  does not begin with the configured prefix, yet the Command Index is queried for
  \<open>help\<close> and the command is executed; the same query is made when that load has
  failed.
\<close>

theorem prefix_filter_pending_load_counterexample:
  "\<not> startsWith ''!help'' (env_storedPrefix ex_env ''g2'') \<and>
   filter isLookup (effectsOf ex_env (ex_msg ''g2'' ''!help'')
     (run ex_env [Arrives (ex_msg ''g2'' ''?help'')] initial)) = [Lookup ''help''] \<and>
   filter isExecute (effectsOf ex_env (ex_msg ''g2'' ''!help'')
     (run ex_env [Arrives (ex_msg ''g2'' ''?help'')] initial)) =
     [Execute cmd_help (newInput ex_env ''!'' (ex_msg ''g2'' ''!help''))] \<and>
   filter isLookup (effectsOf ex_env (ex_msg ''g2'' ''!help'')
     (run ex_env [Arrives (ex_msg ''g2'' ''?help''), LoadFails 0] initial)) = [Lookup ''help'']"
  by code_simp

end
